theory Spec2Isabelle
  imports Main "HOL-Library.AList"
begin

section \<open>JavaScript values\<close>

text \<open>
  The values the program handles: identifiers of collections and bookmarks, parent
  references and the fields of a CSV row. Numbers are modelled as integers (the
  identifiers of the service are integers; NaN and fractions are left out). An
  object is its list of properties. Equality of the model is structural; for the
  primitive values this is the equality a JavaScript \<open>Map\<close> or \<open>Set\<close> uses for
  its keys (objects, which JavaScript compares by reference, are never keys in the
  inputs studied here).
\<close>

datatype jsval =
    JUndefined
  | JNull
  | JBool bool
  | JNum int
  | JStr string
  | JObj "(string \<times> jsval) list"

text \<open>Truthiness, as \<open>if (v)\<close>, \<open>!v\<close> and \<open>a || b\<close> read it.\<close>

fun truthy :: "jsval \<Rightarrow> bool" where
  "truthy JUndefined = False"
| "truthy JNull = False"
| "truthy (JBool b) = b"
| "truthy (JNum n) = (n \<noteq> 0)"
| "truthy (JStr s) = (s \<noteq> [])"
| "truthy (JObj fs) = True"

text \<open>\<open>a || b\<close>: the left operand when it is truthy, the right one otherwise.\<close>

definition jsor :: "jsval \<Rightarrow> jsval \<Rightarrow> jsval" where
  "jsor a b = (if truthy a then a else b)"

text \<open>
  Property access \<open>v.k\<close> on a value that is neither \<open>null\<close> nor \<open>undefined\<close>: an
  object yields the property or \<open>undefined\<close>; a primitive has none of the properties
  read by this program.
\<close>

fun getProp :: "jsval \<Rightarrow> string \<Rightarrow> jsval" where
  "getProp (JObj fs) k = (case map_of fs k of Some v \<Rightarrow> v | None \<Rightarrow> JUndefined)"
| "getProp v k = JUndefined"

text \<open>\<open>typeof v === 'object'\<close>.\<close>

fun typeof_object :: "jsval \<Rightarrow> bool" where
  "typeof_object (JObj fs) = True"
| "typeof_object JNull = True"
| "typeof_object v = False"

text \<open>
  A JavaScript \<open>Map\<close> keeps its keys in insertion order; \<open>set\<close> on a present key
  replaces the value in place and on a new key appends. This is an association list
  with \<open>AList.update\<close>; \<open>get\<close> and \<open>has\<close> are \<open>map_of\<close>.
\<close>

type_synonym 'v jsmap = "(jsval \<times> 'v) list"

section \<open>src/config.js\<close>

record config =
  requestDelay :: nat
  maxRetries :: nat
  retryDelay :: nat

definition config :: config where
  "config = \<lparr> requestDelay = 200, maxRetries = 3, retryDelay = 1000 \<rparr>"

section \<open>src/api.js\<close>

text \<open>
  An error raised by the HTTP client: \<open>name\<close> is the class of the error object,
  \<open>status\<close> is \<open>error.response?.status\<close> (absent for a failure without a
  response), \<open>message\<close> is \<open>error.message\<close>.
\<close>

record error =
  name :: string
  status :: "nat option"
  message :: string

text \<open>What one call of \<open>client.request\<close> or \<open>client.get\<close> does: resolve with
  \<open>response.data\<close> or reject with an error.\<close>

datatype 'a outcome = Response 'a | Rejected error

text \<open>
  The observable steps of a request, in order: each call of \<open>delay\<close> (tagged with the
  place that calls it, with its milliseconds) and each request sent (with its attempt
  number).
\<close>

datatype event =
    RetryWait nat
  | Request nat
  | RequestDelay nat
  | RateLimitWait nat

text \<open>
  The remote service is a function from the attempt number to the outcome of the
  request sent at that attempt. A thrown value is \<open>Some e\<close>, or \<open>None\<close> for
  \<open>throw lastError\<close> with \<open>lastError\<close> still \<open>undefined\<close>. The loop
  \<open>for (attempt = 1; attempt <= config.maxRetries; attempt++)\<close> is the recursion on
  \<open>attempt\<close>; \<open>continue\<close> is the recursive call.
\<close>

function apiRequest_loop ::
  "config \<Rightarrow> (nat \<Rightarrow> 'a outcome) \<Rightarrow> nat \<Rightarrow> error option \<Rightarrow> event list
     \<Rightarrow> (error option + 'a) \<times> event list" where
  "apiRequest_loop cfg srv attempt lastError tr =
     (if attempt \<le> maxRetries cfg then
        (let tr1 = (if attempt > 1
                    then tr @ [RetryWait (retryDelay cfg * 2 ^ (attempt - 1))]
                    else tr);
             tr2 = tr1 @ [Request attempt]
         in case srv attempt of
              Response d \<Rightarrow> (Inr d, tr2 @ [RequestDelay (requestDelay cfg)])
            | Rejected e \<Rightarrow>
                if status e = Some 401 then (Inl (Some e), tr2)
                else if status e = Some 429 then
                  apiRequest_loop cfg srv (attempt + 1) (Some e) (tr2 @ [RateLimitWait 5000])
                else if (case status e of Some s \<Rightarrow> s \<ge> 500 | None \<Rightarrow> False) then
                  apiRequest_loop cfg srv (attempt + 1) (Some e) tr2
                else (Inl (Some e), tr2))
      else (Inl lastError, tr))"
  by pat_completeness auto
termination
  by (relation "measure (\<lambda>(cfg, srv, attempt, lastError, tr). Suc (maxRetries cfg) - attempt)") auto

declare apiRequest_loop.simps [simp del]

definition apiRequest :: "config \<Rightarrow> (nat \<Rightarrow> 'a outcome) \<Rightarrow> (error option + 'a) \<times> event list" where
  "apiRequest cfg srv = apiRequest_loop cfg srv 1 None []"

text \<open>\<open>getRaw\<close> repeats the loop of \<open>apiRequest\<close> around \<open>client.get\<close>.\<close>

function getRaw_loop ::
  "config \<Rightarrow> (nat \<Rightarrow> 'a outcome) \<Rightarrow> nat \<Rightarrow> error option \<Rightarrow> event list
     \<Rightarrow> (error option + 'a) \<times> event list" where
  "getRaw_loop cfg srv attempt lastError tr =
     (if attempt \<le> maxRetries cfg then
        (let tr1 = (if attempt > 1
                    then tr @ [RetryWait (retryDelay cfg * 2 ^ (attempt - 1))]
                    else tr);
             tr2 = tr1 @ [Request attempt]
         in case srv attempt of
              Response d \<Rightarrow> (Inr d, tr2 @ [RequestDelay (requestDelay cfg)])
            | Rejected e \<Rightarrow>
                if status e = Some 401 then (Inl (Some e), tr2)
                else if status e = Some 429 then
                  getRaw_loop cfg srv (attempt + 1) (Some e) (tr2 @ [RateLimitWait 5000])
                else if (case status e of Some s \<Rightarrow> s \<ge> 500 | None \<Rightarrow> False) then
                  getRaw_loop cfg srv (attempt + 1) (Some e) tr2
                else (Inl (Some e), tr2))
      else (Inl lastError, tr))"
  by pat_completeness auto
termination
  by (relation "measure (\<lambda>(cfg, srv, attempt, lastError, tr). Suc (maxRetries cfg) - attempt)") auto

declare getRaw_loop.simps [simp del]

definition getRaw :: "config \<Rightarrow> (nat \<Rightarrow> 'a outcome) \<Rightarrow> (error option + 'a) \<times> event list" where
  "getRaw cfg srv = getRaw_loop cfg srv 1 None []"

text \<open>The projections of a trace used to count waits and requests.\<close>

fun is_backoff :: "event \<Rightarrow> bool" where
  "is_backoff (RetryWait ms) = True"
| "is_backoff e = False"

fun is_wait :: "event \<Rightarrow> bool" where
  "is_wait (Request a) = False"
| "is_wait e = True"

fun is_request :: "event \<Rightarrow> bool" where
  "is_request (Request a) = True"
| "is_request e = False"

section \<open>src/collections.js\<close>

text \<open>
  A raw collection object of the service, with the properties the program reads:
  \<open>_id\<close>, \<open>id\<close>, \<open>title\<close> and \<open>parent\<close> (\<open>JUndefined\<close> when absent). Titles are
  strings, as the service delivers them.
\<close>

record raw_collection =
  col_uid :: jsval
  col_id :: jsval
  col_title :: string
  col_parent :: jsval

text \<open>A node of the collection map: \<open>{ id, title, parentId }\<close>.\<close>

record node =
  node_id :: jsval
  title :: string
  parentId :: jsval

text \<open>A group of \<open>/user\<close>: its title and the ids of its collections.\<close>

record raw_group =
  grp_title :: string
  grp_collections :: "jsval list"

definition buildGroupMap :: "raw_group list \<Rightarrow> string jsmap" where
  "buildGroupMap groups =
     foldl (\<lambda>m group.
              foldl (\<lambda>m' collectionId. AList.update collectionId (grp_title group) m')
                    m (grp_collections group))
           [] groups"

text \<open>
  \<open>addCollection(col, defaultParentId = null)\<close>, with the map it writes to passed
  and returned.
\<close>

definition addCollection :: "raw_collection \<Rightarrow> jsval \<Rightarrow> node jsmap \<Rightarrow> node jsmap" where
  "addCollection col defaultParentId m =
     (let i = jsor (col_uid col) (col_id col);
          p = col_parent col;
          parentId0 =
            (if truthy p then
               (let q = jsor (jsor (jsor (getProp p ''$id'') (getProp p ''_id'')) (getProp p ''id'')) p
                in if typeof_object q then JNull else q)
             else defaultParentId)
      in AList.update i \<lparr> node_id = i, title = col_title col, parentId = jsor parentId0 JNull \<rparr> m)"

definition buildCollectionMap :: "raw_collection list \<Rightarrow> raw_collection list \<Rightarrow> node jsmap" where
  "buildCollectionMap rootCollections childCollections =
     foldl (\<lambda>m c. addCollection c JNull m)
           (foldl (\<lambda>m c. addCollection c JNull m) [] rootCollections)
           childCollections"

text \<open>
  The three resolvers recurse along the parent references with no bound of their
  own; the only bound is the call stack of the engine. The first argument is the
  number of frames still free: a call with none left is the engine's
  \<open>RangeError: Maximum call stack size exceeded\<close>, which nothing in the file
  catches. The cache each resolver writes to is passed and returned.
\<close>

datatype stack_fault = StackOverflow

fun getPath :: "nat \<Rightarrow> node jsmap \<Rightarrow> string jsmap \<Rightarrow> jsval \<Rightarrow> stack_fault + (string \<times> string jsmap)" where
  "getPath 0 collectionMap pathCache i = Inl StackOverflow"
| "getPath (Suc n) collectionMap pathCache i =
     (case map_of pathCache i of
        Some p \<Rightarrow> Inr (p, pathCache)
      | None \<Rightarrow>
          (case map_of collectionMap i of
             None \<Rightarrow> Inr ('''', pathCache)
           | Some nd \<Rightarrow>
               if \<not> truthy (parentId nd) \<or> map_of collectionMap (parentId nd) = None
               then Inr (title nd, AList.update i (title nd) pathCache)
               else
                 (case getPath n collectionMap pathCache (parentId nd) of
                    Inl e \<Rightarrow> Inl e
                  | Inr (parentPath, pathCache') \<Rightarrow>
                      (let fullPath = parentPath @ '' / '' @ title nd
                       in Inr (fullPath, AList.update i fullPath pathCache')))))"

fun computeCollectionPaths_loop ::
  "nat \<Rightarrow> node jsmap \<Rightarrow> string jsmap \<Rightarrow> jsval list \<Rightarrow> stack_fault + string jsmap" where
  "computeCollectionPaths_loop n collectionMap pathCache [] = Inr pathCache"
| "computeCollectionPaths_loop n collectionMap pathCache (i # ids) =
     (case getPath n collectionMap pathCache i of
        Inl e \<Rightarrow> Inl e
      | Inr (p, pathCache') \<Rightarrow> computeCollectionPaths_loop n collectionMap pathCache' ids)"

definition computeCollectionPaths :: "nat \<Rightarrow> node jsmap \<Rightarrow> stack_fault + string jsmap" where
  "computeCollectionPaths n collectionMap =
     computeCollectionPaths_loop n collectionMap [] (map fst collectionMap)"

fun getRoot :: "nat \<Rightarrow> node jsmap \<Rightarrow> string jsmap \<Rightarrow> jsval \<Rightarrow> stack_fault + (string \<times> string jsmap)" where
  "getRoot 0 collectionMap rootCache i = Inl StackOverflow"
| "getRoot (Suc n) collectionMap rootCache i =
     (case map_of rootCache i of
        Some r \<Rightarrow> Inr (r, rootCache)
      | None \<Rightarrow>
          (case map_of collectionMap i of
             None \<Rightarrow> Inr ('''', rootCache)
           | Some nd \<Rightarrow>
               if \<not> truthy (parentId nd) \<or> map_of collectionMap (parentId nd) = None
               then Inr (title nd, AList.update i (title nd) rootCache)
               else
                 (case getRoot n collectionMap rootCache (parentId nd) of
                    Inl e \<Rightarrow> Inl e
                  | Inr (root, rootCache') \<Rightarrow> Inr (root, AList.update i root rootCache'))))"

fun computeRootCollections_loop ::
  "nat \<Rightarrow> node jsmap \<Rightarrow> string jsmap \<Rightarrow> jsval list \<Rightarrow> stack_fault + string jsmap" where
  "computeRootCollections_loop n collectionMap rootCache [] = Inr rootCache"
| "computeRootCollections_loop n collectionMap rootCache (i # ids) =
     (case getRoot n collectionMap rootCache i of
        Inl e \<Rightarrow> Inl e
      | Inr (r, rootCache') \<Rightarrow> computeRootCollections_loop n collectionMap rootCache' ids)"

definition computeRootCollections :: "nat \<Rightarrow> node jsmap \<Rightarrow> stack_fault + string jsmap" where
  "computeRootCollections n collectionMap =
     computeRootCollections_loop n collectionMap [] (map fst collectionMap)"

fun getRootId :: "nat \<Rightarrow> node jsmap \<Rightarrow> jsval jsmap \<Rightarrow> jsval \<Rightarrow> stack_fault + (jsval \<times> jsval jsmap)" where
  "getRootId 0 collectionMap rootIdCache i = Inl StackOverflow"
| "getRootId (Suc n) collectionMap rootIdCache i =
     (case map_of rootIdCache i of
        Some r \<Rightarrow> Inr (r, rootIdCache)
      | None \<Rightarrow>
          (case map_of collectionMap i of
             None \<Rightarrow> Inr (JNull, rootIdCache)
           | Some nd \<Rightarrow>
               if \<not> truthy (parentId nd) \<or> map_of collectionMap (parentId nd) = None
               then Inr (i, AList.update i i rootIdCache)
               else
                 (case getRootId n collectionMap rootIdCache (parentId nd) of
                    Inl e \<Rightarrow> Inl e
                  | Inr (rootId, rootIdCache') \<Rightarrow> Inr (rootId, AList.update i rootId rootIdCache'))))"

fun computeRootCollectionIds_loop ::
  "nat \<Rightarrow> node jsmap \<Rightarrow> jsval jsmap \<Rightarrow> jsval list \<Rightarrow> stack_fault + jsval jsmap" where
  "computeRootCollectionIds_loop n collectionMap rootIdCache [] = Inr rootIdCache"
| "computeRootCollectionIds_loop n collectionMap rootIdCache (i # ids) =
     (case getRootId n collectionMap rootIdCache i of
        Inl e \<Rightarrow> Inl e
      | Inr (r, rootIdCache') \<Rightarrow> computeRootCollectionIds_loop n collectionMap rootIdCache' ids)"

definition computeRootCollectionIds :: "nat \<Rightarrow> node jsmap \<Rightarrow> stack_fault + jsval jsmap" where
  "computeRootCollectionIds n collectionMap =
     computeRootCollectionIds_loop n collectionMap [] (map fst collectionMap)"

text \<open>
  \<open>computeFullPaths(paths, rootIds, groups)\<close>. \<open>rootIds.get(id)\<close> is \<open>undefined\<close>
  for a missing key; \<open>groups.get(rootId)\<close> is a title or \<open>undefined\<close> (\<open>None\<close>).
\<close>

definition computeFullPaths_step ::
  "jsval jsmap \<Rightarrow> string jsmap \<Rightarrow> string jsmap \<Rightarrow> jsval \<times> string \<Rightarrow> string jsmap" where
  "computeFullPaths_step rootIds groups fullPaths entry =
     (case entry of (i, path) \<Rightarrow>
        (let rootId = (case map_of rootIds i of Some r \<Rightarrow> r | None \<Rightarrow> JUndefined);
             group = (if truthy rootId then map_of groups rootId else Some '''')
         in case group of
              Some g \<Rightarrow>
                if g \<noteq> '''' then AList.update i (g @ '' / '' @ path) fullPaths
                else AList.update i path fullPaths
            | None \<Rightarrow> AList.update i path fullPaths))"

definition computeFullPaths :: "string jsmap \<Rightarrow> jsval jsmap \<Rightarrow> string jsmap \<Rightarrow> string jsmap" where
  "computeFullPaths paths rootIds groups =
     foldl (computeFullPaths_step rootIds groups) [] paths"

section \<open>src/raindrops.js\<close>

text \<open>
  A bookmark record is an object: the columns of its CSV row, later with the five
  metadata properties. \<open>{...row, k: v}\<close> keeps a present key in place and appends a
  new one, which is \<open>AList.update\<close>. Reading a property of a record is \<open>field\<close>.
\<close>

type_synonym row = "(string \<times> jsval) list"

definition field :: "row \<Rightarrow> string \<Rightarrow> jsval" where
  "field r k = (case map_of r k of Some v \<Rightarrow> v | None \<Rightarrow> JUndefined)"

text \<open>
  \<open>csvContent.trim() === ''\<close> holds when the text is white space from end to end.
  A string of the model is the UTF-8 bytes of the text, so the white space and line
  terminators that \<open>trim\<close> removes are the bytes 9 to 13 and 32 and the encodings
  of U+00A0, U+1680, U+2000 to U+200A, U+2028, U+2029, U+202F, U+205F, U+3000 and
  U+FEFF. \<open>white_space_length\<close> is the number of bytes of the white space character a
  byte sequence starts with, 0 when it starts with none.
\<close>

definition white_space_length :: "nat list \<Rightarrow> nat" where
  "white_space_length bs =
     (case bs of
        [] \<Rightarrow> 0
      | a # r \<Rightarrow>
          if a \<in> {9, 10, 11, 12, 13, 32} then 1
          else if a = 0xC2 then
            (case r of b # r' \<Rightarrow> if b = 0xA0 then 2 else 0 | [] \<Rightarrow> 0)
          else if a \<in> {0xE1, 0xE2, 0xE3, 0xEF} then
            (case r of
               b # c # r' \<Rightarrow>
                 if a = 0xE1 \<and> b = 0x9A \<and> c = 0x80
                  \<or> a = 0xE2 \<and> b = 0x80 \<and> (0x80 \<le> c \<and> c \<le> 0x8A \<or> c \<in> {0xA8, 0xA9, 0xAF})
                  \<or> a = 0xE2 \<and> b = 0x81 \<and> c = 0x9F
                  \<or> a = 0xE3 \<and> b = 0x80 \<and> c = 0x80
                  \<or> a = 0xEF \<and> b = 0xBB \<and> c = 0xBF
                 then 3 else 0
             | _ \<Rightarrow> 0)
          else 0)"

function all_white_space :: "nat list \<Rightarrow> bool" where
  "all_white_space bs =
     (if bs = [] then True
      else if white_space_length bs = 0 then False
      else all_white_space (drop (white_space_length bs) bs))"
  by pat_completeness auto
termination
  by (relation "measure length") auto

declare all_white_space.simps [simp del]

definition trim_is_empty :: "string \<Rightarrow> bool" where
  "trim_is_empty s = all_white_space (map of_char s)"

text \<open>What the program prints with \<open>console.warn\<close> and \<open>console.error\<close> while it
  aggregates: the collection concerned, and for an error its message.\<close>

datatype console_line =
    WarnNotFound jsval
  | ErrorFetching jsval string

text \<open>
  The \<open>TypeError\<close> of reading a property of \<open>undefined\<close>: \<open>error.response\<close> when
  the caught value is \<open>undefined\<close>, \<open>node.title\<close> when the map has no node.
\<close>

definition typeError :: "string \<Rightarrow> error" where
  "typeError p = \<lparr> name = ''TypeError'', status = None,
                    message = ''Cannot read properties of undefined (reading '' @ [CHR 0x27] @ p
                                @ [CHR 0x27] @ '')'' \<rparr>"

definition addMetadata :: "jsval \<Rightarrow> string \<Rightarrow> jsval \<Rightarrow> jsval \<Rightarrow> string \<Rightarrow> row \<Rightarrow> row" where
  "addMetadata collectionId collectionTitle fullPath rootCollection grp r =
     AList.update ''group'' (JStr grp)
       (AList.update ''root_collection'' rootCollection
         (AList.update ''full_path'' fullPath
           (AList.update ''collection_title'' (JStr collectionTitle)
             (AList.update ''collection_id'' collectionId r))))"

text \<open>
  \<open>fetchCollectionRaindrops\<close>. \<open>srv\<close> is the behaviour of the service for the export
  of this collection, attempt by attempt; \<open>fetchCollectionCsv\<close> is \<open>getRaw\<close> on it.
  \<open>parseCsv\<close> (the CSV library with the sanitising of each row) is a parameter: it
  resolves with the rows or rejects with an error. The \<open>catch\<close> block is
  \<open>recover\<close>.
\<close>

definition fetchCollectionRaindrops ::
  "config \<Rightarrow> (string \<Rightarrow> error + row list) \<Rightarrow> (nat \<Rightarrow> string outcome)
     \<Rightarrow> jsval \<Rightarrow> string \<Rightarrow> jsval \<Rightarrow> jsval \<Rightarrow> string
     \<Rightarrow> (error + row list) \<times> console_line list" where
  "fetchCollectionRaindrops cfg parseCsv srv collectionId collectionTitle fullPath rootCollection grp =
     (let recover = (\<lambda>caught.
            case caught of
              None \<Rightarrow> (Inl (typeError ''response''), [])
            | Some e \<Rightarrow>
                if status e = Some 404 then (Inr [], [WarnNotFound collectionId])
                else (Inl e, []))
      in case fst (getRaw cfg srv) of
           Inl caught \<Rightarrow> recover caught
         | Inr csvContent \<Rightarrow>
             if csvContent = [] \<or> trim_is_empty csvContent then (Inr [], [])
             else
               (case parseCsv csvContent of
                  Inl e \<Rightarrow> recover (Some e)
                | Inr rows \<Rightarrow>
                    (Inr (map (addMetadata collectionId collectionTitle fullPath rootCollection grp) rows),
                     [])))"

text \<open>The identifier the deduplication reads: \<open>raindrop.id || raindrop._id\<close>.\<close>

definition raindropId :: "row \<Rightarrow> jsval" where
  "raindropId raindrop = jsor (field raindrop ''id'') (field raindrop ''_id'')"

text \<open>The inner loop \<open>for (const raindrop of raindrops)\<close> on \<open>allRaindrops\<close> and
  \<open>seenIds\<close>.\<close>

fun fetchAllRaindrops_dedup :: "row list \<Rightarrow> row list \<times> jsval set \<Rightarrow> row list \<times> jsval set" where
  "fetchAllRaindrops_dedup [] (allRaindrops, seenIds) = (allRaindrops, seenIds)"
| "fetchAllRaindrops_dedup (raindrop # raindrops) (allRaindrops, seenIds) =
     (if truthy (raindropId raindrop) \<and> raindropId raindrop \<in> seenIds
      then fetchAllRaindrops_dedup raindrops (allRaindrops, seenIds)
      else fetchAllRaindrops_dedup raindrops
             (allRaindrops @ [raindrop],
              if truthy (raindropId raindrop) then insert (raindropId raindrop) seenIds else seenIds))"

text \<open>
  What \<open>fetchCollectionRaindrops\<close> is called with for the collection \<open>i\<close> of the
  outer loop: \<open>node.title\<close>, \<open>fullPaths.get(id)\<close>, \<open>roots.get(id)\<close> and
  \<open>groups.get(id) || ''\<close>. \<open>net i\<close> is the service's behaviour for the export of
  collection \<open>i\<close>.
\<close>

definition fetchOne ::
  "config \<Rightarrow> (string \<Rightarrow> error + row list) \<Rightarrow> (jsval \<Rightarrow> nat \<Rightarrow> string outcome)
     \<Rightarrow> string jsmap \<Rightarrow> string jsmap \<Rightarrow> string jsmap \<Rightarrow> jsval \<Rightarrow> node
     \<Rightarrow> (error + row list) \<times> console_line list" where
  "fetchOne cfg parseCsv net fullPaths roots groups i nd =
     (let fullPath = (case map_of fullPaths i of Some p \<Rightarrow> JStr p | None \<Rightarrow> JUndefined);
          root = (case map_of roots i of Some r \<Rightarrow> JStr r | None \<Rightarrow> JUndefined);
          group = (case map_of groups i of Some g \<Rightarrow> g | None \<Rightarrow> '''')
      in fetchCollectionRaindrops cfg parseCsv (net i) i (title nd) fullPath root group)"

text \<open>
  One round of the outer loop, on \<open>allRaindrops\<close>, \<open>seenIds\<close> and the console. The
  \<open>catch\<close> of the loop prints the message and goes on. (A key with no node cannot
  come out of \<open>collectionMap.keys()\<close>; reading \<open>node.title\<close> would raise inside the
  \<open>try\<close> and be printed like any other error.)
\<close>

definition fetchAllRaindrops_step ::
  "config \<Rightarrow> (string \<Rightarrow> error + row list) \<Rightarrow> (jsval \<Rightarrow> nat \<Rightarrow> string outcome)
     \<Rightarrow> node jsmap \<Rightarrow> string jsmap \<Rightarrow> string jsmap \<Rightarrow> string jsmap
     \<Rightarrow> row list \<times> jsval set \<times> console_line list \<Rightarrow> jsval
     \<Rightarrow> row list \<times> jsval set \<times> console_line list" where
  "fetchAllRaindrops_step cfg parseCsv net collectionMap fullPaths roots groups st i =
     (case st of (allRaindrops, seenIds, console) \<Rightarrow>
        (case map_of collectionMap i of
           None \<Rightarrow> (allRaindrops, seenIds, console @ [ErrorFetching i (message (typeError ''title''))])
         | Some nd \<Rightarrow>
             (case fetchOne cfg parseCsv net fullPaths roots groups i nd of
                (Inr raindrops, printed) \<Rightarrow>
                  (case fetchAllRaindrops_dedup raindrops (allRaindrops, seenIds) of
                     (allRaindrops', seenIds') \<Rightarrow> (allRaindrops', seenIds', console @ printed))
              | (Inl e, printed) \<Rightarrow>
                  (allRaindrops, seenIds, console @ printed @ [ErrorFetching i (message e)]))))"

definition fetchAllRaindrops_loop ::
  "config \<Rightarrow> (string \<Rightarrow> error + row list) \<Rightarrow> (jsval \<Rightarrow> nat \<Rightarrow> string outcome)
     \<Rightarrow> node jsmap \<Rightarrow> string jsmap \<Rightarrow> string jsmap \<Rightarrow> string jsmap
     \<Rightarrow> jsval list \<Rightarrow> row list \<times> jsval set \<times> console_line list
     \<Rightarrow> row list \<times> jsval set \<times> console_line list" where
  "fetchAllRaindrops_loop cfg parseCsv net collectionMap fullPaths roots groups collectionIds st =
     foldl (fetchAllRaindrops_step cfg parseCsv net collectionMap fullPaths roots groups) st collectionIds"

text \<open>\<open>fetchAllRaindrops\<close> returns \<open>allRaindrops\<close>; the model returns the console with it.\<close>

definition fetchAllRaindrops ::
  "config \<Rightarrow> (string \<Rightarrow> error + row list) \<Rightarrow> (jsval \<Rightarrow> nat \<Rightarrow> string outcome)
     \<Rightarrow> node jsmap \<Rightarrow> string jsmap \<Rightarrow> string jsmap \<Rightarrow> string jsmap
     \<Rightarrow> row list \<times> console_line list" where
  "fetchAllRaindrops cfg parseCsv net collectionMap fullPaths roots groups =
     (case fetchAllRaindrops_loop cfg parseCsv net collectionMap fullPaths roots groups
             (map fst collectionMap) ([], {}, []) of
        (allRaindrops, seenIds, console) \<Rightarrow> (allRaindrops, console))"

section \<open>Notions used to state the properties\<close>

text \<open>
  The parent a resolver recurses to from \<open>i\<close>: none when \<open>i\<close> has no node, when its
  \<open>parentId\<close> is falsy, or when the map has no node for the \<open>parentId\<close> (the test of
  the three resolvers).
\<close>

definition parentOf :: "node jsmap \<Rightarrow> jsval \<Rightarrow> jsval option" where
  "parentOf collectionMap i =
     (case map_of collectionMap i of
        None \<Rightarrow> None
      | Some nd \<Rightarrow>
          if \<not> truthy (parentId nd) \<or> map_of collectionMap (parentId nd) = None then None
          else Some (parentId nd))"

text \<open>
  The \<open>m\<close>-th node up the parent references from \<open>i\<close>, when the chain is that long;
  a node is on a cycle when its own chain comes back to it.
\<close>

fun ancestor :: "node jsmap \<Rightarrow> nat \<Rightarrow> jsval \<Rightarrow> jsval option" where
  "ancestor collectionMap 0 i = Some i"
| "ancestor collectionMap (Suc m) i =
     (case parentOf collectionMap i of
        None \<Rightarrow> None
      | Some p \<Rightarrow> ancestor collectionMap m p)"

definition on_cycle :: "node jsmap \<Rightarrow> jsval \<Rightarrow> bool" where
  "on_cycle collectionMap i = (\<exists>m. 0 < m \<and> ancestor collectionMap m i = Some i)"

text \<open>
  The records collection \<open>i\<close> contributes to a run: the tagged rows of its export
  when its fetch succeeds, none otherwise.
\<close>

definition contributed ::
  "config \<Rightarrow> (string \<Rightarrow> error + row list) \<Rightarrow> (jsval \<Rightarrow> nat \<Rightarrow> string outcome)
     \<Rightarrow> node jsmap \<Rightarrow> string jsmap \<Rightarrow> string jsmap \<Rightarrow> string jsmap \<Rightarrow> jsval \<Rightarrow> row list" where
  "contributed cfg parseCsv net collectionMap fullPaths roots groups i =
     (case map_of collectionMap i of
        None \<Rightarrow> []
      | Some nd \<Rightarrow>
          (case fst (fetchOne cfg parseCsv net fullPaths roots groups i nd) of
             Inr raindrops \<Rightarrow> raindrops
           | Inl e \<Rightarrow> []))"

text \<open>
  The three resolvers have one shape: the value for a missing node, the value of a
  root, and the value of a node from its parent's. Properties of the shape are proved
  once and carried to each resolver.
\<close>

fun resolve ::
  "'v \<Rightarrow> (jsval \<Rightarrow> node \<Rightarrow> 'v) \<Rightarrow> ('v \<Rightarrow> node \<Rightarrow> 'v) \<Rightarrow> nat \<Rightarrow> node jsmap \<Rightarrow> 'v jsmap \<Rightarrow> jsval
     \<Rightarrow> stack_fault + ('v \<times> 'v jsmap)" where
  "resolve d b s 0 cm c i = Inl StackOverflow"
| "resolve d b s (Suc n) cm c i =
     (case map_of c i of
        Some v \<Rightarrow> Inr (v, c)
      | None \<Rightarrow>
          (case map_of cm i of
             None \<Rightarrow> Inr (d, c)
           | Some nd \<Rightarrow>
               if \<not> truthy (parentId nd) \<or> map_of cm (parentId nd) = None
               then Inr (b i nd, AList.update i (b i nd) c)
               else
                 (case resolve d b s n cm c (parentId nd) of
                    Inl e \<Rightarrow> Inl e
                  | Inr (v, c') \<Rightarrow> Inr (s v nd, AList.update i (s v nd) c'))))"

fun resolve_loop ::
  "'v \<Rightarrow> (jsval \<Rightarrow> node \<Rightarrow> 'v) \<Rightarrow> ('v \<Rightarrow> node \<Rightarrow> 'v) \<Rightarrow> nat \<Rightarrow> node jsmap \<Rightarrow> 'v jsmap \<Rightarrow> jsval list
     \<Rightarrow> stack_fault + 'v jsmap" where
  "resolve_loop d b s n cm c [] = Inr c"
| "resolve_loop d b s n cm c (i # ids) =
     (case resolve d b s n cm c i of
        Inl e \<Rightarrow> Inl e
      | Inr (v, c') \<Rightarrow> resolve_loop d b s n cm c' ids)"

section \<open>Inputs used as examples\<close>

text \<open>An error of the HTTP client for a response with the given status.\<close>

definition httpError :: "nat \<Rightarrow> error" where
  "httpError s = \<lparr> name = ''AxiosError'', status = Some s, message = ''Request failed'' \<rparr>"

text \<open>A service that always answers 500; one that answers 500 twice and then
  delivers; one that answers 500 and then 401.\<close>

definition always_500 :: "nat \<Rightarrow> string outcome" where
  "always_500 a = Rejected (httpError 500)"

definition twice_500 :: "nat \<Rightarrow> string outcome" where
  "twice_500 a = (if a < 3 then Rejected (httpError 500) else Response ''payload'')"

definition then_401 :: "nat \<Rightarrow> string outcome" where
  "then_401 a = (if a = 1 then Rejected (httpError 500) else Rejected (httpError 401))"

text \<open>
  The collections of the specification's end-to-end example (\<open>A\<close>, \<open>A / B\<close>,
  \<open>A / B / C\<close>) with an orphan whose parent 77 is not delivered, and two children
  that name each other as parent.
\<close>

definition example_roots :: "raw_collection list" where
  "example_roots =
     [\<lparr> col_uid = JNum 1, col_id = JUndefined, col_title = ''A'', col_parent = JUndefined \<rparr>]"

definition example_children :: "raw_collection list" where
  "example_children =
     [\<lparr> col_uid = JNum 2, col_id = JUndefined, col_title = ''B'',
        col_parent = JObj [(''$ref'', JStr ''collections''), (''$id'', JNum 1)] \<rparr>,
      \<lparr> col_uid = JNum 3, col_id = JUndefined, col_title = ''C'', col_parent = JNum 2 \<rparr>,
      \<lparr> col_uid = JNum 9, col_id = JUndefined, col_title = ''Orphan'', col_parent = JNum 77 \<rparr>]"

definition cyclic_children :: "raw_collection list" where
  "cyclic_children =
     [\<lparr> col_uid = JNum 5, col_id = JUndefined, col_title = ''X'', col_parent = JNum 6 \<rparr>,
      \<lparr> col_uid = JNum 6, col_id = JUndefined, col_title = ''Y'', col_parent = JNum 5 \<rparr>]"

definition example_map :: "node jsmap" where
  "example_map = buildCollectionMap example_roots example_children"

definition cyclic_map :: "node jsmap" where
  "cyclic_map = buildCollectionMap example_roots cyclic_children"

text \<open>
  A root collection delivered with a parent reference; a collection whose id is 0
  and a group that lists it; the group of the end-to-end example.
\<close>

definition root_with_parent :: raw_collection where
  "root_with_parent =
     \<lparr> col_uid = JNum 4, col_id = JUndefined, col_title = ''R'', col_parent = JNum 7 \<rparr>"

definition zero_roots :: "raw_collection list" where
  "zero_roots =
     [\<lparr> col_uid = JUndefined, col_id = JNum 0, col_title = ''Zero'', col_parent = JUndefined \<rparr>]"

definition zero_groups :: "raw_group list" where
  "zero_groups = [\<lparr> grp_title = ''G'', grp_collections = [JNum 0] \<rparr>]"

definition example_groups :: "raw_group list" where
  "example_groups = [\<lparr> grp_title = ''G'', grp_collections = [JNum 1] \<rparr>]"

text \<open>
  A run over the four collections of the example: the exports of collections 1 and
  2 both hold the bookmark with id 10 and a row with no id; the export of collection
  3 is not found; the service answers 500 to every request for collection 9.
\<close>

definition example_net :: "jsval \<Rightarrow> nat \<Rightarrow> string outcome" where
  "example_net i a =
     (if i = JNum 1 then Response ''one''
      else if i = JNum 2 then Response ''two''
      else if i = JNum 3 then Rejected (httpError 404)
      else Rejected (httpError 500))"

definition example_parseCsv :: "string \<Rightarrow> error + row list" where
  "example_parseCsv s =
     (if s = ''one'' \<or> s = ''two''
      then Inr [[(''id'', JStr ''10''), (''title'', JStr ''T'')], [(''title'', JStr ''N'')]]
      else Inr [])"

definition example_fullPaths :: "string jsmap" where
  "example_fullPaths =
     [(JNum 1, ''G / A''), (JNum 2, ''G / A / B''), (JNum 3, ''G / A / B / C''), (JNum 9, ''Orphan'')]"

definition example_rootTitles :: "string jsmap" where
  "example_rootTitles = [(JNum 1, ''A''), (JNum 2, ''A''), (JNum 3, ''A''), (JNum 9, ''Orphan'')]"

definition example_contributed :: "jsval \<Rightarrow> row list" where
  "example_contributed =
     contributed config example_parseCsv example_net example_map example_fullPaths
       example_rootTitles (buildGroupMap example_groups)"

definition example_output :: "row list \<times> console_line list" where
  "example_output =
     fetchAllRaindrops config example_parseCsv example_net example_map example_fullPaths
       example_rootTitles (buildGroupMap example_groups)"

text \<open>
  Roots delivered with a wrapped parent reference: under \<open>_id\<close>, under \<open>id\<close>, and
  an object with no id at all.
\<close>

definition wrapped_roots :: "raw_collection list" where
  "wrapped_roots =
     [\<lparr> col_uid = JNum 11, col_id = JUndefined, col_title = ''P'',
        col_parent = JObj [(''_id'', JNum 3)] \<rparr>,
      \<lparr> col_uid = JUndefined, col_id = JNum 12, col_title = ''Q'',
        col_parent = JObj [(''id'', JNum 8)] \<rparr>,
      \<lparr> col_uid = JNum 13, col_id = JUndefined, col_title = ''S'',
        col_parent = JObj [(''$ref'', JStr ''collections'')] \<rparr>]"

text \<open>
  A second run over the four collections: the service answers 500 to every request
  for collection 1, the export of collection 3 is not found, and collections 2 and 9
  deliver.
\<close>

definition late_net :: "jsval \<Rightarrow> nat \<Rightarrow> string outcome" where
  "late_net i a =
     (if i = JNum 1 then Rejected (httpError 500)
      else if i = JNum 2 then Response ''two''
      else if i = JNum 3 then Rejected (httpError 404)
      else Response ''one'')"

definition late_contributed :: "jsval \<Rightarrow> row list" where
  "late_contributed =
     contributed config example_parseCsv late_net example_map example_fullPaths
       example_rootTitles (buildGroupMap example_groups)"

definition late_output :: "row list \<times> console_line list" where
  "late_output =
     fetchAllRaindrops config example_parseCsv late_net example_map example_fullPaths
       example_rootTitles (buildGroupMap example_groups)"

section \<open>The retry loop\<close>

lemma getRaw_loop_eq: "getRaw_loop cfg srv a le tr = apiRequest_loop cfg srv a le tr"
proof (induction cfg srv a le tr rule: apiRequest_loop.induct)
  case (1 cfg srv attempt lastError tr)
  show ?case
    apply (subst getRaw_loop.simps)
    apply (subst apiRequest_loop.simps)
    using 1
    apply (auto simp: Let_def split: outcome.splits option.splits)
    done
qed

lemma getRaw_eq: "getRaw cfg srv = apiRequest cfg srv"
  by (simp add: getRaw_def apiRequest_def getRaw_loop_eq)

lemma apiRequest_loop_401:
  assumes "k \<le> maxRetries cfg" "srv k = Rejected e" "status e = Some 401"
  shows "apiRequest_loop cfg srv k le tr =
           (Inl (Some e), tr @ (if k > 1 then [RetryWait (retryDelay cfg * 2 ^ (k - 1))] else []) @ [Request k])"
  using assms by (subst apiRequest_loop.simps) (simp add: Let_def)

lemma apiRequest_loop_retry:
  assumes "k \<le> maxRetries cfg" "srv k = Rejected e"
    and "status e = Some 429 \<or> (\<exists>s. status e = Some s \<and> 500 \<le> s)"
  shows "apiRequest_loop cfg srv k le tr =
           apiRequest_loop cfg srv (Suc k) (Some e)
             (tr @ (if k > 1 then [RetryWait (retryDelay cfg * 2 ^ (k - 1))] else []) @ [Request k]
                 @ (if status e = Some 429 then [RateLimitWait 5000] else []))"
  using assms by (subst apiRequest_loop.simps) (auto simp add: Let_def)

lemma apiRequest_loop_past:
  assumes "maxRetries cfg < k"
  shows "apiRequest_loop cfg srv k le tr = (Inl le, tr)"
  using assms by (subst apiRequest_loop.simps) simp

lemma apiRequest_loop_500_chain:
  assumes "a \<le> b" "b \<le> Suc (maxRetries cfg)"
    and "\<forall>j. a \<le> j \<and> j < b \<longrightarrow> (\<exists>e. srv j = Rejected e \<and> status e = Some 500)"
  shows "\<exists>le'. apiRequest_loop cfg srv a le tr =
           apiRequest_loop cfg srv b le'
             (tr @ concat (map (\<lambda>j. (if j > 1 then [RetryWait (retryDelay cfg * 2 ^ (j - 1))] else []) @ [Request j]) [a..<b]))
           \<and> (a < b \<longrightarrow> srv (b - 1) = Rejected (the le'))  \<and> (a < b \<longrightarrow> le' \<noteq> None)"
  using assms
proof (induction b rule: dec_induct)
  case base
  then show ?case by auto
next
  case (step n)
  then obtain le' where IH: "apiRequest_loop cfg srv a le tr =
           apiRequest_loop cfg srv n le'
             (tr @ concat (map (\<lambda>j. (if j > 1 then [RetryWait (retryDelay cfg * 2 ^ (j - 1))] else []) @ [Request j]) [a..<n]))"
    by auto
  from step obtain e where e: "srv n = Rejected e" "status e = Some 500" by auto
  have n: "n \<le> maxRetries cfg" using step by simp
  show ?case
    apply (rule exI[of _ "Some e"])
    using step(1) e
    apply (simp add: IH apiRequest_loop_retry[where k=n and srv=srv and cfg=cfg and e=e, OF n e(1)])
    done
qed


lemma apiRequest_loop_retry_chain:
  assumes "a \<le> b" "b \<le> Suc (maxRetries cfg)"
    and "\<forall>j. a \<le> j \<and> j < b \<longrightarrow>
           (\<exists>e. srv j = Rejected e \<and> (status e = Some 429 \<or> (\<exists>s. status e = Some s \<and> 500 \<le> s)))"
  shows "\<exists>le' tr'. apiRequest_loop cfg srv a le tr = apiRequest_loop cfg srv b le' (tr @ tr')
           \<and> filter is_request tr' = map Request [a..<b]"
  using assms
proof (induction b rule: dec_induct)
  case base
  show ?case by (rule exI[of _ le], rule exI[of _ "[]"]) simp
next
  case (step n)
  then obtain le' tr' where IH: "apiRequest_loop cfg srv a le tr = apiRequest_loop cfg srv n le' (tr @ tr')"
      and tr': "filter is_request tr' = map Request [a..<n]"
    by auto
  from step obtain e where e: "srv n = Rejected e"
      "status e = Some 429 \<or> (\<exists>s. status e = Some s \<and> 500 \<le> s)" by auto
  have n: "n \<le> maxRetries cfg" using step by simp
  let ?ev = "(if n > 1 then [RetryWait (retryDelay cfg * 2 ^ (n - 1))] else []) @ [Request n]
                 @ (if status e = Some 429 then [RateLimitWait 5000] else [])"
  have "apiRequest_loop cfg srv a le tr = apiRequest_loop cfg srv (Suc n) (Some e) (tr @ (tr' @ ?ev))"
    by (simp add: IH apiRequest_loop_retry[where k=n and srv=srv and cfg=cfg and e=e, OF n e])
  moreover have "filter is_request (tr' @ ?ev) = map Request [a..<Suc n]"
    using tr' step(1) by simp
  ultimately show ?case by blast
qed

text \<open>
  C5. When the loop reaches attempt \<open>k\<close> (every earlier attempt was answered 429 or
  500 and above) and attempt \<open>k\<close> is answered 401, \<open>apiRequest\<close> and \<open>getRaw\<close> throw
  that error at once: the request of attempt \<open>k\<close> is the last event of the trace, so
  no wait follows it, and exactly \<open>k\<close> requests were sent, so no retry follows it,
  whatever remains of \<open>maxRetries\<close>.
\<close>

theorem unauthorized_aborts:
  assumes "1 \<le> k" and "k \<le> maxRetries cfg"
    and "srv k = Rejected e" and "status e = Some 401"
    and "\<forall>j. 1 \<le> j \<and> j < k \<longrightarrow>
           (\<exists>e'. srv j = Rejected e' \<and> (status e' = Some 429 \<or> (\<exists>s. status e' = Some s \<and> 500 \<le> s)))"
  shows "\<exists>tr. apiRequest cfg srv = (Inl (Some e), tr @ [Request k])
            \<and> getRaw cfg srv = (Inl (Some e), tr @ [Request k])
            \<and> filter is_request tr = map Request [1..<k]"
proof -
  have "k \<le> Suc (maxRetries cfg)" using assms(2) by simp
  from apiRequest_loop_retry_chain[where le=None and tr="[]", OF assms(1) this assms(5)]
  obtain le' tr' where c: "apiRequest_loop cfg srv 1 None [] = apiRequest_loop cfg srv k le' tr'"
      and r: "filter is_request tr' = map Request [1..<k]"
    by auto
  let ?tr = "tr' @ (if k > 1 then [RetryWait (retryDelay cfg * 2 ^ (k - 1))] else [])"
  have "apiRequest cfg srv = apiRequest_loop cfg srv k le' tr'"
    unfolding apiRequest_def by (rule c)
  also have "\<dots> = (Inl (Some e), ?tr @ [Request k])"
    by (simp add: apiRequest_loop_401[where k=k and cfg=cfg and srv=srv and e=e, OF assms(2,3,4)])
  finally have "apiRequest cfg srv = (Inl (Some e), ?tr @ [Request k])" .
  moreover have "filter is_request ?tr = map Request [1..<k]" using r by simp
  ultimately show ?thesis by (metis getRaw_eq)
qed

theorem unauthorized_aborts_witness:
  "\<exists>tr. apiRequest config then_401 = (Inl (Some (httpError 401)), tr @ [Request 2])
        \<and> getRaw config then_401 = (Inl (Some (httpError 401)), tr @ [Request 2])
        \<and> filter is_request tr = map Request [1..<2]"
  by (rule unauthorized_aborts) (auto simp: config_def then_401_def httpError_def)

lemma waits_of_failures:
  "filter is_wait (concat (map (\<lambda>j. (if j > 1 then [RetryWait (f j)] else []) @ [Request j]) [1..<Suc m]))
     = map (\<lambda>a. RetryWait (f a)) [2..<Suc m]"
proof (induction m)
  case 0
  show ?case by simp
next
  case (Suc m)
  show ?case
  proof (cases "m = 0")
    case True
    then show ?thesis by simp
  next
    case False
    then have "2 \<le> Suc m" by simp
    then have "[2..<Suc (Suc m)] = [2..<Suc m] @ [Suc m]" by (rule upt_Suc_append)
    moreover have "[1..<Suc (Suc m)] = [1..<Suc m] @ [Suc m]" by (rule upt_Suc_append) simp
    ultimately show ?thesis using Suc False by (simp del: upt_Suc)
  qed
qed

lemma requests_of_failures:
  "filter is_request (concat (map (\<lambda>j. (if j > 1 then [RetryWait (f j)] else []) @ [Request j]) [1..<Suc m]))
     = map Request [1..<Suc m]"
  by (induction m) auto

text \<open>
  C3, as the code has it. When every one of the \<open>maxRetries\<close> attempts (at least one)
  is answered 500, \<open>apiRequest\<close> and \<open>getRaw\<close> send \<open>maxRetries\<close> requests, wait
  exactly \<open>maxRetries - 1\<close> times, each wait a backoff of
  \<open>retryDelay * 2 ^ (attempt - 1)\<close> before attempts \<open>2 .. maxRetries\<close>, and throw the
  error of the last attempt itself: the value thrown is the error object the client
  raised, with no wrapper around it.
\<close>

theorem exhausted_rethrows_last:
  assumes "1 \<le> maxRetries cfg"
    and "\<forall>a. 1 \<le> a \<and> a \<le> maxRetries cfg \<longrightarrow> (\<exists>e. srv a = Rejected e \<and> status e = Some 500)"
  shows "\<exists>e tr. srv (maxRetries cfg) = Rejected e
            \<and> apiRequest cfg srv = (Inl (Some e), tr)
            \<and> getRaw cfg srv = (Inl (Some e), tr)
            \<and> filter is_wait tr = map (\<lambda>a. RetryWait (retryDelay cfg * 2 ^ (a - 1))) [2..<Suc (maxRetries cfg)]
            \<and> length (filter is_wait tr) = maxRetries cfg - 1
            \<and> filter is_request tr = map Request [1..<Suc (maxRetries cfg)]"
proof -
  let ?m = "maxRetries cfg"
  let ?ev = "\<lambda>j. (if j > 1 then [RetryWait (retryDelay cfg * 2 ^ (j - 1))] else []) @ [Request j]"
  let ?tr = "concat (map ?ev [1..<Suc ?m])"
  have h: "\<forall>j. 1 \<le> j \<and> j < Suc ?m \<longrightarrow> (\<exists>e. srv j = Rejected e \<and> status e = Some 500)"
    using assms(2) by simp
  have le: "(1::nat) \<le> Suc ?m" by simp
  from apiRequest_loop_500_chain[where le=None and tr="[]", OF le _ h] assms(1)
  obtain le' where c: "apiRequest_loop cfg srv 1 None [] = apiRequest_loop cfg srv (Suc ?m) le' ?tr"
      and l: "srv ?m = Rejected (the le')" "le' \<noteq> None"
    by auto
  from l obtain e where e: "le' = Some e" "srv ?m = Rejected e" by auto
  have "apiRequest cfg srv = apiRequest_loop cfg srv (Suc ?m) le' ?tr"
    unfolding apiRequest_def by (rule c)
  also have "\<dots> = (Inl (Some e), ?tr)"
    by (simp only: e apiRequest_loop_past[of cfg "Suc ?m", OF lessI])
  finally have res: "apiRequest cfg srv = (Inl (Some e), ?tr)" .
  have w1: "filter is_wait ?tr = map (\<lambda>a. RetryWait (retryDelay cfg * 2 ^ (a - 1))) [2..<Suc ?m]"
    by (rule waits_of_failures)
  have r1: "filter is_request ?tr = map Request [1..<Suc ?m]"
    by (rule requests_of_failures)
  have "length (filter is_wait ?tr) = ?m - 1"
    by (simp only: w1 length_map length_upt)
  moreover have "getRaw cfg srv = (Inl (Some e), ?tr)" using res by (simp only: getRaw_eq)
  ultimately show ?thesis using res e(2) w1 r1 by blast
qed


theorem exhausted_rethrows_last_witness:
  "1 \<le> maxRetries config \<and>
   (\<exists>e tr. always_500 (maxRetries config) = Rejected e
            \<and> apiRequest config always_500 = (Inl (Some e), tr)
            \<and> getRaw config always_500 = (Inl (Some e), tr)
            \<and> filter is_wait tr = map (\<lambda>a. RetryWait (retryDelay config * 2 ^ (a - 1))) [2..<Suc (maxRetries config)]
            \<and> length (filter is_wait tr) = maxRetries config - 1
            \<and> filter is_request tr = map Request [1..<Suc (maxRetries config)])"
proof -
  have m: "1 \<le> maxRetries config" by (simp add: config_def)
  have "\<forall>a. 1 \<le> a \<and> a \<le> maxRetries config \<longrightarrow>
          (\<exists>e. always_500 a = Rejected e \<and> status e = Some 500)"
    by (simp add: always_500_def httpError_def)
  from m exhausted_rethrows_last[OF m this] show ?thesis by (rule conjI)
qed

text \<open>
  C3, as the specification has it, fails: with the shipped configuration and a
  service that always answers 500, the value thrown is the client's own error of
  class \<open>AxiosError\<close>; no \<open>RetriesExhaustedError\<close> is built.
\<close>

theorem exhausted_counterexample:
  "apiRequest config always_500
     = (Inl (Some (httpError 500)), [Request 1, RetryWait 2000, Request 2, RetryWait 4000, Request 3])
   \<and> getRaw config always_500
     = (Inl (Some (httpError 500)), [Request 1, RetryWait 2000, Request 2, RetryWait 4000, Request 3])
   \<and> name (httpError 500) \<noteq> ''RetriesExhaustedError''"
  by (simp add: getRaw_eq apiRequest_def apiRequest_loop.simps config_def always_500_def httpError_def)

text \<open>
  Two attempts answered 500 and a third that delivers, for any configuration that
  allows three attempts: the two backoff waits are \<open>retryDelay * 2\<close> and
  \<open>retryDelay * 4\<close>.
\<close>

lemma two_failures_then_success:
  assumes "3 \<le> maxRetries cfg"
    and "srv 1 = Rejected e1" and "status e1 = Some 500"
    and "srv 2 = Rejected e2" and "status e2 = Some 500"
    and "srv 3 = Response d"
  shows "apiRequest cfg srv
           = (Inr d, [Request 1, RetryWait (retryDelay cfg * 2), Request 2,
                      RetryWait (retryDelay cfg * 4), Request 3, RequestDelay (requestDelay cfg)])"
proof -
  have 1: "apiRequest_loop cfg srv 1 None [] = apiRequest_loop cfg srv 2 (Some e1) [Request 1]"
    using assms by (subst apiRequest_loop.simps) (simp add: Let_def eval_nat_numeral)
  have 2: "apiRequest_loop cfg srv 2 (Some e1) [Request 1]
             = apiRequest_loop cfg srv 3 (Some e2) [Request 1, RetryWait (retryDelay cfg * 2), Request 2]"
    using assms by (subst apiRequest_loop.simps) (simp add: Let_def eval_nat_numeral)
  have 3: "apiRequest_loop cfg srv 3 (Some e2) [Request 1, RetryWait (retryDelay cfg * 2), Request 2]
             = (Inr d, [Request 1, RetryWait (retryDelay cfg * 2), Request 2,
                      RetryWait (retryDelay cfg * 4), Request 3, RequestDelay (requestDelay cfg)])"
    using assms by (subst apiRequest_loop.simps) (simp add: Let_def eval_nat_numeral)
  show ?thesis unfolding apiRequest_def by (simp only: 1 2 3)
qed

text \<open>
  C2, evaluated. With the shipped configuration (\<open>retryDelay = 1000\<close>) and a service
  that answers 500 twice and then delivers, \<open>apiRequest\<close> returns the payload after
  exactly two backoff waits, but they last 2000 and 4000 milliseconds, twice what
  the claim states: the exponent is taken from the attempt about to start, not from
  the attempt that failed.
\<close>

theorem retry_waits_observed:
  "apiRequest config twice_500
     = (Inr ''payload'',
        [Request 1, RetryWait 2000, Request 2, RetryWait 4000, Request 3, RequestDelay 200])"
  by (simp add: apiRequest_def apiRequest_loop.simps config_def twice_500_def httpError_def)

section \<open>Path resolution\<close>

lemma getPath_resolve:
  "getPath n cm c i = resolve '''' (\<lambda>i nd. title nd) (\<lambda>p nd. p @ '' / '' @ title nd) n cm c i"
  by (induction n arbitrary: c i) (auto simp: Let_def split: option.splits sum.splits)

lemma getRoot_resolve:
  "getRoot n cm c i = resolve '''' (\<lambda>i nd. title nd) (\<lambda>r nd. r) n cm c i"
  by (induction n arbitrary: c i) (auto split: option.splits sum.splits)

lemma getRootId_resolve:
  "getRootId n cm c i = resolve JNull (\<lambda>i nd. i) (\<lambda>r nd. r) n cm c i"
  by (induction n arbitrary: c i) (auto split: option.splits sum.splits)

lemma computeCollectionPaths_loop_resolve:
  "computeCollectionPaths_loop n cm c ids
     = resolve_loop '''' (\<lambda>i nd. title nd) (\<lambda>p nd. p @ '' / '' @ title nd) n cm c ids"
  by (induction ids arbitrary: c) (auto simp: getPath_resolve split: sum.splits)

lemma computeRootCollections_loop_resolve:
  "computeRootCollections_loop n cm c ids = resolve_loop '''' (\<lambda>i nd. title nd) (\<lambda>r nd. r) n cm c ids"
  by (induction ids arbitrary: c) (auto simp: getRoot_resolve split: sum.splits)

lemma computeRootCollectionIds_loop_resolve:
  "computeRootCollectionIds_loop n cm c ids = resolve_loop JNull (\<lambda>i nd. i) (\<lambda>r nd. r) n cm c ids"
  by (induction ids arbitrary: c) (auto simp: getRootId_resolve split: sum.splits)

lemma parentOf_Some:
  "parentOf cm i = Some p \<longleftrightarrow>
     (\<exists>nd. map_of cm i = Some nd \<and> truthy (parentId nd) \<and> map_of cm (parentId nd) \<noteq> None \<and> p = parentId nd)"
  by (auto simp: parentOf_def split: option.splits)

lemma parentOf_None:
  "map_of cm i = Some nd \<Longrightarrow>
     parentOf cm i = None \<longleftrightarrow> (\<not> truthy (parentId nd) \<or> map_of cm (parentId nd) = None)"
  by (auto simp: parentOf_def)

lemma resolve_parent:
  assumes "parentOf cm i = Some p" "map_of cm i = Some nd" "map_of c i = None"
  shows "resolve d b s (Suc n) cm c i =
           (case resolve d b s n cm c p of
              Inl e \<Rightarrow> Inl e
            | Inr (v, c') \<Rightarrow> Inr (s v nd, AList.update i (s v nd) c'))"
  using assms by (auto simp: parentOf_Some)

lemma resolve_root:
  assumes "parentOf cm i = None" "map_of cm i = Some nd" "map_of c i = None"
  shows "resolve d b s (Suc n) cm c i = Inr (b i nd, AList.update i (b i nd) c)"
  using assms by (auto simp: parentOf_None)

lemma resolve_overflow:
  assumes "\<forall>k\<in>S. \<exists>p\<in>S. parentOf cm k = Some p" and "\<forall>k\<in>S. map_of c k = None" and "i \<in> S"
  shows "resolve d b s n cm c i = Inl StackOverflow"
  using assms(3)
proof (induction n arbitrary: i)
  case 0
  show ?case by simp
next
  case (Suc n)
  from assms(1) Suc.prems obtain p where p: "p \<in> S" "parentOf cm i = Some p" by blast
  then obtain nd where nd: "map_of cm i = Some nd" by (auto simp: parentOf_Some)
  have "map_of c i = None" using assms(2) Suc.prems by blast
  from resolve_parent[where d=d and b=b and s=s and n=n, OF p(2) nd this] Suc.IH[OF p(1)] show ?case
    by (simp del: resolve.simps)
qed

lemma resolve_keeps_out:
  assumes "\<forall>k\<in>S. \<exists>p\<in>S. parentOf cm k = Some p" and "\<forall>k\<in>S. map_of c k = None"
    and "resolve d b s n cm c i = Inr (v, c')"
  shows "\<forall>k\<in>S. map_of c' k = None"
  using assms(3)
proof (induction n arbitrary: i v c')
  case 0
  then show ?case by simp
next
  case (Suc n)
  have iS: "i \<notin> S"
    using resolve_overflow[OF assms(1,2), of i d b s "Suc n"] Suc.prems by auto
  show ?case
  proof (cases "map_of c i")
    case (Some w)
    with Suc.prems assms(2) show ?thesis by simp
  next
    case None
    show ?thesis
    proof (cases "map_of cm i")
      case None
      with \<open>map_of c i = None\<close> Suc.prems assms(2) show ?thesis by simp
    next
      case (Some nd)
      show ?thesis
      proof (cases "parentOf cm i")
        case None
        from resolve_root[where d=d and b=b and s=s and n=n, OF None Some \<open>map_of c i = None\<close>] Suc.prems
        have "c' = AList.update i (b i nd) c" by (simp del: resolve.simps)
        with assms(2) iS show ?thesis by (auto simp: update_conv')
      next
        case (Some p)
        from resolve_parent[where d=d and b=b and s=s and n=n, OF Some \<open>map_of cm i = Some nd\<close> \<open>map_of c i = None\<close>] Suc.prems
        obtain v0 c0 where r: "resolve d b s n cm c p = Inr (v0, c0)" "c' = AList.update i (s v0 nd) c0"
          by (auto simp del: resolve.simps split: sum.splits)
        from Suc.IH[OF r(1)] r(2) iS show ?thesis by (auto simp: update_conv')
      qed
    qed
  qed
qed

lemma resolve_loop_overflow:
  assumes "\<forall>k\<in>S. \<exists>p\<in>S. parentOf cm k = Some p" and "\<forall>k\<in>S. map_of c k = None"
    and "set ids \<inter> S \<noteq> {}"
  shows "resolve_loop d b s n cm c ids = Inl StackOverflow"
  using assms(2,3)
proof (induction ids arbitrary: c)
  case Nil
  then show ?case by simp
next
  case (Cons i ids)
  show ?case
  proof (cases "resolve d b s n cm c i")
    case (Inl e)
    then show ?thesis by (cases e) simp
  next
    case (Inr r)
    obtain v c' where r: "r = (v, c')" by (cases r)
    have "i \<notin> S" using resolve_overflow[OF assms(1) Cons.prems(1), of i d b s n] Inr by auto
    with Cons.prems(2) have "set ids \<inter> S \<noteq> {}" by auto
    moreover have "\<forall>k\<in>S. map_of c' k = None"
      using resolve_keeps_out[OF assms(1) Cons.prems(1)] Inr r by blast
    ultimately have "resolve_loop d b s n cm c' ids = Inl StackOverflow" by (rule Cons.IH[rotated])
    with Inr r show ?thesis by simp
  qed
qed

lemma example_map_eq:
  "example_map =
     [(JNum 1, \<lparr>node_id = JNum 1, title = ''A'', parentId = JNull\<rparr>),
      (JNum 2, \<lparr>node_id = JNum 2, title = ''B'', parentId = JNum 1\<rparr>),
      (JNum 3, \<lparr>node_id = JNum 3, title = ''C'', parentId = JNum 2\<rparr>),
      (JNum 9, \<lparr>node_id = JNum 9, title = ''Orphan'', parentId = JNum 77\<rparr>)]"
  by (simp add: example_map_def buildCollectionMap_def example_roots_def example_children_def
        addCollection_def jsor_def Let_def)

lemma cyclic_map_eq:
  "cyclic_map =
     [(JNum 1, \<lparr>node_id = JNum 1, title = ''A'', parentId = JNull\<rparr>),
      (JNum 5, \<lparr>node_id = JNum 5, title = ''X'', parentId = JNum 6\<rparr>),
      (JNum 6, \<lparr>node_id = JNum 6, title = ''Y'', parentId = JNum 5\<rparr>)]"
  by (simp add: cyclic_map_def buildCollectionMap_def example_roots_def cyclic_children_def
        addCollection_def jsor_def Let_def)

lemma resolve_root_entries:
  assumes "resolve d b s n cm c i = Inr (v, c')"
    and "\<forall>r nd. map_of cm r = Some nd \<and> parentOf cm r = None \<longrightarrow> map_of c r = None \<or> map_of c r = Some (b r nd)"
  shows "\<forall>r nd. map_of cm r = Some nd \<and> parentOf cm r = None \<longrightarrow> map_of c' r = None \<or> map_of c' r = Some (b r nd)"
  using assms(1)
proof (induction n arbitrary: i v c')
  case 0
  then show ?case by simp
next
  case (Suc n)
  show ?case
  proof (cases "map_of c i")
    case (Some w)
    with Suc.prems assms(2) show ?thesis by simp
  next
    case None
    show ?thesis
    proof (cases "map_of cm i")
      case None
      with \<open>map_of c i = None\<close> Suc.prems assms(2) show ?thesis by simp
    next
      case (Some nd)
      show ?thesis
      proof (cases "parentOf cm i")
        case None
        from resolve_root[where d=d and b=b and s=s and n=n, OF None Some \<open>map_of c i = None\<close>] Suc.prems
        have "c' = AList.update i (b i nd) c" by (simp del: resolve.simps)
        with assms(2) Some show ?thesis by (auto simp: update_conv')
      next
        case (Some p)
        from resolve_parent[where d=d and b=b and s=s and n=n, OF Some \<open>map_of cm i = Some nd\<close> \<open>map_of c i = None\<close>] Suc.prems
        obtain v0 c0 where r: "resolve d b s n cm c p = Inr (v0, c0)" "c' = AList.update i (s v0 nd) c0"
          by (auto simp del: resolve.simps split: sum.splits)
        from Suc.IH[OF r(1)] r(2) Some show ?thesis by (auto simp: update_conv')
      qed
    qed
  qed
qed

lemma resolve_dom:
  assumes "resolve d b s n cm c i = Inr (v, c')"
  shows "(\<forall>k. map_of c k \<noteq> None \<longrightarrow> map_of c' k \<noteq> None) \<and> (map_of cm i \<noteq> None \<longrightarrow> map_of c' i \<noteq> None)"
  using assms
proof (induction n arbitrary: i v c')
  case 0
  then show ?case by simp
next
  case (Suc n)
  show ?case
  proof (cases "map_of c i")
    case (Some w)
    with Suc.prems show ?thesis by simp
  next
    case None
    show ?thesis
    proof (cases "map_of cm i")
      case None
      with \<open>map_of c i = None\<close> Suc.prems show ?thesis by simp
    next
      case (Some nd)
      show ?thesis
      proof (cases "parentOf cm i")
        case None
        from resolve_root[where d=d and b=b and s=s and n=n, OF None Some \<open>map_of c i = None\<close>] Suc.prems
        have "c' = AList.update i (b i nd) c" by (simp del: resolve.simps)
        then show ?thesis by (auto simp: update_conv')
      next
        case (Some p)
        from resolve_parent[where d=d and b=b and s=s and n=n, OF Some \<open>map_of cm i = Some nd\<close> \<open>map_of c i = None\<close>] Suc.prems
        obtain v0 c0 where r: "resolve d b s n cm c p = Inr (v0, c0)" "c' = AList.update i (s v0 nd) c0"
          by (auto simp del: resolve.simps split: sum.splits)
        from Suc.IH[OF r(1)] r(2) show ?thesis by (auto simp: update_conv')
      qed
    qed
  qed
qed

lemma resolve_loop_root_entries:
  assumes "resolve_loop d b s n cm c ids = Inr c'"
    and "\<forall>r nd. map_of cm r = Some nd \<and> parentOf cm r = None \<longrightarrow> map_of c r = None \<or> map_of c r = Some (b r nd)"
  shows "(\<forall>r nd. map_of cm r = Some nd \<and> parentOf cm r = None \<longrightarrow> map_of c' r = None \<or> map_of c' r = Some (b r nd))
       \<and> (\<forall>k. map_of c k \<noteq> None \<longrightarrow> map_of c' k \<noteq> None)
       \<and> (\<forall>i\<in>set ids. map_of cm i \<noteq> None \<longrightarrow> map_of c' i \<noteq> None)"
  using assms
proof (induction ids arbitrary: c)
  case Nil
  then show ?case by simp
next
  case (Cons i ids)
  from Cons.prems(1) obtain v c1 where r: "resolve d b s n cm c i = Inr (v, c1)"
      "resolve_loop d b s n cm c1 ids = Inr c'"
    by (auto split: sum.splits)
  note inv1 = resolve_root_entries[OF r(1) Cons.prems(2)]
  note dom1 = resolve_dom[OF r(1)]
  note IH = Cons.IH[OF r(2) inv1]
  from IH dom1 show ?case by auto
qed

lemma resolve_loop_root_value:
  assumes "resolve_loop d b s n cm [] (map fst cm) = Inr c'"
    and "map_of cm r = Some nd" and "parentOf cm r = None"
  shows "map_of c' r = Some (b r nd)"
proof -
  have "r \<in> set (map fst cm)" using assms(2) by (auto dest: map_of_SomeD intro: rev_image_eqI)
  with resolve_loop_root_entries[OF assms(1)] assms(2,3) show ?thesis by fastforce
qed


lemma ancestor_add:
  "ancestor cm (a + b) i = (case ancestor cm a i of None \<Rightarrow> None | Some k \<Rightarrow> ancestor cm b k)"
  by (induction a arbitrary: i) (auto split: option.splits)

lemma ancestor_one: "ancestor cm (Suc 0) k = parentOf cm k"
  by (simp split: option.splits)

lemma ancestor_prefix:
  assumes "ancestor cm b i \<noteq> None" and "a \<le> b"
  shows "ancestor cm a i \<noteq> None"
proof -
  from assms(2) have "b = a + (b - a)" by simp
  then have "ancestor cm b i = (case ancestor cm a i of None \<Rightarrow> None | Some k \<Rightarrow> ancestor cm (b - a) k)"
    by (metis ancestor_add)
  with assms(1) show ?thesis by (auto split: option.splits)
qed

lemma ancestor_step:
  assumes "ancestor cm j i = Some k"
  shows "ancestor cm (Suc j) i = parentOf cm k"
proof -
  have "ancestor cm (j + Suc 0) i = (case ancestor cm j i of None \<Rightarrow> None | Some k \<Rightarrow> ancestor cm (Suc 0) k)"
    by (rule ancestor_add)
  with assms show ?thesis by (simp add: ancestor_one del: ancestor.simps)
qed

lemma cycle_repeats:
  assumes "ancestor cm m i = Some i"
  shows "ancestor cm (q * m) i = Some i"
proof (induction q)
  case 0
  show ?case by simp
next
  case (Suc q)
  have "ancestor cm (m + q * m) i = (case ancestor cm m i of None \<Rightarrow> None | Some k \<Rightarrow> ancestor cm (q * m) k)"
    by (rule ancestor_add)
  with assms Suc show ?case by simp
qed

lemma cycle_chain_defined:
  assumes "0 < m" and "ancestor cm m i = Some i"
  shows "ancestor cm j i \<noteq> None"
proof -
  have "j \<le> j * m" using assms(1) by simp
  moreover have "ancestor cm (j * m) i \<noteq> None" using cycle_repeats[OF assms(2)] by simp
  ultimately show ?thesis by (rule ancestor_prefix[rotated])
qed

lemma cycle_closed:
  assumes "on_cycle cm i"
  shows "\<forall>k\<in>{k. \<exists>j. ancestor cm j i = Some k}. \<exists>p\<in>{k. \<exists>j. ancestor cm j i = Some k}. parentOf cm k = Some p"
proof
  fix k assume "k \<in> {k. \<exists>j. ancestor cm j i = Some k}"
  then obtain j where j: "ancestor cm j i = Some k" by blast
  from assms obtain m where m: "0 < m" "ancestor cm m i = Some i" by (auto simp: on_cycle_def)
  have "ancestor cm (Suc j) i \<noteq> None" by (rule cycle_chain_defined[OF m])
  then obtain p where p: "ancestor cm (Suc j) i = Some p" by blast
  with ancestor_step[OF j] have "parentOf cm k = Some p" by simp
  with p show "\<exists>p\<in>{k. \<exists>j. ancestor cm j i = Some k}. parentOf cm k = Some p" by blast
qed

lemma cycle_key:
  assumes "on_cycle cm i"
  shows "i \<in> set (map fst cm)"
proof -
  from assms obtain m where m: "0 < m" "ancestor cm m i = Some i" by (auto simp: on_cycle_def)
  have "ancestor cm (Suc 0) i \<noteq> None" by (rule cycle_chain_defined[OF m])
  then obtain nd where "map_of cm i = Some nd" by (auto simp: parentOf_def split: option.splits)
  then show ?thesis by (auto dest: map_of_SomeD intro: rev_image_eqI)
qed

lemma resolve_cycle:
  assumes "on_cycle cm i"
  shows "resolve d b s n cm [] i = Inl StackOverflow"
proof (rule resolve_overflow[OF cycle_closed[OF assms]])
  show "\<forall>k\<in>{k. \<exists>j. ancestor cm j i = Some k}. map_of [] k = None" by simp
  have "ancestor cm 0 i = Some i" by simp
  then show "i \<in> {k. \<exists>j. ancestor cm j i = Some k}" by blast
qed

lemma resolve_loop_cycle:
  assumes "on_cycle cm i"
  shows "resolve_loop d b s n cm [] (map fst cm) = Inl StackOverflow"
proof (rule resolve_loop_overflow[OF cycle_closed[OF assms]])
  show "\<forall>k\<in>{k. \<exists>j. ancestor cm j i = Some k}. map_of [] k = None" by simp
  have "ancestor cm 0 i = Some i" by simp
  then have "i \<in> {k. \<exists>j. ancestor cm j i = Some k}" by blast
  with cycle_key[OF assms] show "set (map fst cm) \<inter> {k. \<exists>j. ancestor cm j i = Some k} \<noteq> {}" by blast
qed

lemma long_chain_has_cycle:
  assumes "ancestor cm (Suc (length cm)) k \<noteq> None"
  shows "\<exists>x. on_cycle cm x"
proof -
  let ?N = "length cm"
  let ?f = "\<lambda>j. the (ancestor cm j k)"
  have def: "\<And>j. j \<le> Suc ?N \<Longrightarrow> ancestor cm j k = Some (?f j)"
    using ancestor_prefix[OF assms] by fastforce
  have "?f ` {0..?N} \<subseteq> fst ` set cm"
  proof
    fix x assume "x \<in> ?f ` {0..?N}"
    then obtain j where j: "j \<le> ?N" "x = ?f j" by auto
    then have "ancestor cm j k = Some x" using def by simp
    from ancestor_step[OF this] def[of "Suc j"] j(1) have "parentOf cm x \<noteq> None"
      by (metis Suc_le_mono option.distinct(1))
    then obtain nd where "map_of cm x = Some nd" by (auto simp: parentOf_def split: option.splits)
    then show "x \<in> fst ` set cm" by (auto dest: map_of_SomeD intro: rev_image_eqI)
  qed
  then have "card (?f ` {0..?N}) \<le> card (fst ` set cm)" by (intro card_mono) auto
  also have "\<dots> \<le> ?N" by (metis card_image_le card_length le_trans List.finite_set)
  finally have "card (?f ` {0..?N}) < card {0..?N}" by simp
  then have "\<not> inj_on ?f {0..?N}" by (metis card_image less_irrefl)
  then obtain a0 b0 where ab0: "a0 \<le> ?N" "b0 \<le> ?N" "a0 \<noteq> b0" "?f a0 = ?f b0"
    by (auto simp: inj_on_def)
  define a where "a = min a0 b0"
  define b where "b = max a0 b0"
  from ab0 have ab: "a < b" "b \<le> ?N" "?f a = ?f b"
    by (auto simp: a_def b_def min_def max_def)
  from ab have le: "a \<le> Suc ?N" "b \<le> Suc ?N" by simp_all
  have da: "ancestor cm a k = Some (?f a)" by (rule def[OF le(1)])
  have db: "ancestor cm b k = Some (?f b)" by (rule def[OF le(2)])
  define x where "x = ?f a"
  have xa: "ancestor cm a k = Some x" using da by (simp only: x_def)
  have xb: "ancestor cm b k = Some x" using db ab(3) by (simp only: x_def)
  have "ancestor cm (a + (b - a)) k = (case ancestor cm a k of None \<Rightarrow> None | Some y \<Rightarrow> ancestor cm (b - a) y)"
    by (rule ancestor_add)
  moreover have "a + (b - a) = b" using ab(1) by simp
  ultimately have "ancestor cm (b - a) x = Some x" using xa xb by (simp del: ancestor.simps)
  with ab(1) have "on_cycle cm x" unfolding on_cycle_def by (intro exI[of _ "b - a"]) simp
  then show ?thesis ..
qed

lemma resolve_short_chain:
  assumes "ancestor cm m i = None" and "m \<le> n"
  shows "\<exists>v c'. resolve d b s n cm c i = Inr (v, c')"
  using assms
proof (induction m arbitrary: i n c)
  case 0
  then show ?case by simp
next
  case (Suc m)
  then obtain n' where n': "n = Suc n'" "m \<le> n'" by (cases n) auto
  show ?case
  proof (cases "parentOf cm i")
    case None
    then show ?thesis unfolding n' by (auto simp: parentOf_def split: option.splits if_splits)
  next
    case (Some p)
    with Suc.prems(1) have "ancestor cm m p = None" by simp
    from Suc.IH[OF this n'(2)] obtain v c' where "resolve d b s n' cm c p = Inr (v, c')" by blast
    with Some show ?thesis unfolding n' by (auto simp: parentOf_Some split: option.splits)
  qed
qed

lemma resolve_acyclic:
  assumes "\<forall>k. \<not> on_cycle cm k" and "length cm < n"
  shows "\<exists>v c'. resolve d b s n cm c i = Inr (v, c')"
proof -
  have "ancestor cm (Suc (length cm)) i = None"
    using long_chain_has_cycle[of cm i] assms(1) by blast
  moreover have "Suc (length cm) \<le> n" using assms(2) by simp
  ultimately show ?thesis by (rule resolve_short_chain)
qed

lemma resolve_loop_acyclic:
  assumes "\<forall>k. \<not> on_cycle cm k" and "length cm < n"
  shows "\<exists>c'. resolve_loop d b s n cm c ids = Inr c'"
proof (induction ids arbitrary: c)
  case Nil
  show ?case by simp
next
  case (Cons i ids)
  from resolve_acyclic[where d=d and b=b and s=s and c=c, OF assms] obtain v c'
    where "resolve d b s n cm c i = Inr (v, c')" by blast
  moreover from Cons obtain c'' where "resolve_loop d b s n cm c' ids = Inr c''" by blast
  ultimately show ?case by simp
qed

lemma ranked_no_cycle:
  assumes "\<forall>k p. parentOf cm k = Some p \<longrightarrow> rank p < (rank k :: nat)"
  shows "\<not> on_cycle cm i"
proof -
  have "ancestor cm m k = Some j \<Longrightarrow> rank j + m \<le> rank k" for m k j
  proof (induction m arbitrary: k)
    case 0
    then show ?case by simp
  next
    case (Suc m)
    then obtain p where p: "parentOf cm k = Some p" "ancestor cm m p = Some j"
      by (auto split: option.splits)
    from Suc.IH[OF p(2)] assms p(1) show ?case by fastforce
  qed
  then show ?thesis unfolding on_cycle_def by fastforce
qed

lemma example_paths:
  "computeCollectionPaths 5 example_map
     = Inr [(JNum 1, ''A''), (JNum 2, ''A / B''), (JNum 3, ''A / B / C''), (JNum 9, ''Orphan'')]"
  by (simp add: computeCollectionPaths_def example_map_eq eval_nat_numeral Let_def)

lemma example_roots_resolved:
  "computeRootCollections 5 example_map
     = Inr [(JNum 1, ''A''), (JNum 2, ''A''), (JNum 3, ''A''), (JNum 9, ''Orphan'')]"
  by (simp add: computeRootCollections_def example_map_eq eval_nat_numeral Let_def)

lemma example_rootIds:
  "computeRootCollectionIds 5 example_map
     = Inr [(JNum 1, JNum 1), (JNum 2, JNum 1), (JNum 3, JNum 1), (JNum 9, JNum 9)]"
  by (simp add: computeRootCollectionIds_def example_map_eq eval_nat_numeral Let_def)

lemma example_map_no_cycle: "\<not> on_cycle example_map k"
proof (rule ranked_no_cycle)
  show "\<forall>k p. parentOf example_map k = Some p \<longrightarrow>
          (case p of JNum n \<Rightarrow> nat n | _ \<Rightarrow> 0) < (case k of JNum n \<Rightarrow> nat n | _ \<Rightarrow> 0)"
    by (auto simp: parentOf_def example_map_eq split: if_splits)
qed

lemma cyclic_map_cycle: "on_cycle cyclic_map (JNum 5)"
  unfolding on_cycle_def
  by (rule exI[of _ "Suc (Suc 0)"]) (simp add: parentOf_def cyclic_map_eq)

text \<open>
  C1, as the code has it. The resolvers have no cycle guard: the recursion is bounded
  by the call stack alone. For a node on a cycle of parent references, \<open>getPath\<close>,
  \<open>getRoot\<close> and \<open>getRootId\<close> exhaust the stack whatever its depth \<open>n\<close>, and so do
  \<open>computeCollectionPaths\<close>, \<open>computeRootCollections\<close> and
  \<open>computeRootCollectionIds\<close> on the whole map. When the map has no cycle, a stack
  deeper than the number of collections is enough: every node resolves and the three
  functions return their maps.
\<close>

theorem cycle_overflows_forest_resolves:
  "(on_cycle collectionMap i \<longrightarrow>
      getPath n collectionMap [] i = Inl StackOverflow
    \<and> getRoot n collectionMap [] i = Inl StackOverflow
    \<and> getRootId n collectionMap [] i = Inl StackOverflow
    \<and> computeCollectionPaths n collectionMap = Inl StackOverflow
    \<and> computeRootCollections n collectionMap = Inl StackOverflow
    \<and> computeRootCollectionIds n collectionMap = Inl StackOverflow)
 \<and> ((\<forall>k. \<not> on_cycle collectionMap k) \<and> length collectionMap < n \<longrightarrow>
      (\<forall>k. (\<exists>p c. getPath n collectionMap [] k = Inr (p, c))
         \<and> (\<exists>r c. getRoot n collectionMap [] k = Inr (r, c))
         \<and> (\<exists>r c. getRootId n collectionMap [] k = Inr (r, c)))
    \<and> (\<exists>paths roots rootIds.
           computeCollectionPaths n collectionMap = Inr paths
         \<and> computeRootCollections n collectionMap = Inr roots
         \<and> computeRootCollectionIds n collectionMap = Inr rootIds))"
proof (intro conjI impI allI)
  assume c: "on_cycle collectionMap i"
  show "getPath n collectionMap [] i = Inl StackOverflow"
    by (simp only: getPath_resolve resolve_cycle[OF c])
  show "getRoot n collectionMap [] i = Inl StackOverflow"
    by (simp only: getRoot_resolve resolve_cycle[OF c])
  show "getRootId n collectionMap [] i = Inl StackOverflow"
    by (simp only: getRootId_resolve resolve_cycle[OF c])
  show "computeCollectionPaths n collectionMap = Inl StackOverflow"
    by (simp only: computeCollectionPaths_def computeCollectionPaths_loop_resolve resolve_loop_cycle[OF c])
  show "computeRootCollections n collectionMap = Inl StackOverflow"
    by (simp only: computeRootCollections_def computeRootCollections_loop_resolve resolve_loop_cycle[OF c])
  show "computeRootCollectionIds n collectionMap = Inl StackOverflow"
    by (simp only: computeRootCollectionIds_def computeRootCollectionIds_loop_resolve resolve_loop_cycle[OF c])
next
  fix k
  assume a: "(\<forall>k. \<not> on_cycle collectionMap k) \<and> length collectionMap < n"
  then have a1: "\<forall>k. \<not> on_cycle collectionMap k" and a2: "length collectionMap < n" by simp_all
  show "\<exists>p c. getPath n collectionMap [] k = Inr (p, c)"
    unfolding getPath_resolve by (rule resolve_acyclic[OF a1 a2])
  show "\<exists>r c. getRoot n collectionMap [] k = Inr (r, c)"
    unfolding getRoot_resolve by (rule resolve_acyclic[OF a1 a2])
  show "\<exists>r c. getRootId n collectionMap [] k = Inr (r, c)"
    unfolding getRootId_resolve by (rule resolve_acyclic[OF a1 a2])
next
  assume a: "(\<forall>k. \<not> on_cycle collectionMap k) \<and> length collectionMap < n"
  then have a1: "\<forall>k. \<not> on_cycle collectionMap k" and a2: "length collectionMap < n" by simp_all
  have "\<exists>paths. computeCollectionPaths n collectionMap = Inr paths"
    unfolding computeCollectionPaths_def computeCollectionPaths_loop_resolve
    by (rule resolve_loop_acyclic[OF a1 a2])
  moreover have "\<exists>roots. computeRootCollections n collectionMap = Inr roots"
    unfolding computeRootCollections_def computeRootCollections_loop_resolve
    by (rule resolve_loop_acyclic[OF a1 a2])
  moreover have "\<exists>rootIds. computeRootCollectionIds n collectionMap = Inr rootIds"
    unfolding computeRootCollectionIds_def computeRootCollectionIds_loop_resolve
    by (rule resolve_loop_acyclic[OF a1 a2])
  ultimately show "\<exists>paths roots rootIds.
           computeCollectionPaths n collectionMap = Inr paths
         \<and> computeRootCollections n collectionMap = Inr roots
         \<and> computeRootCollectionIds n collectionMap = Inr rootIds" by blast
qed

theorem cycle_overflows_forest_resolves_witness:
  "on_cycle cyclic_map (JNum 5)
 \<and> getPath 10000 cyclic_map [] (JNum 5) = Inl StackOverflow
 \<and> computeCollectionPaths 10000 cyclic_map = Inl StackOverflow
 \<and> (\<forall>k. \<not> on_cycle example_map k)
 \<and> length example_map < 5
 \<and> (\<exists>paths roots rootIds.
           computeCollectionPaths 5 example_map = Inr paths
         \<and> computeRootCollections 5 example_map = Inr roots
         \<and> computeRootCollectionIds 5 example_map = Inr rootIds)"
proof -
  have l: "length example_map < 5" by (simp add: example_map_eq)
  from cycle_overflows_forest_resolves[of cyclic_map "JNum 5" 10000] cyclic_map_cycle
    cycle_overflows_forest_resolves[of example_map "JNum 1" 5] example_map_no_cycle l
  show ?thesis by blast
qed

text \<open>
  C1, as the specification has it, fails: on the map where collections 5 and 6 name
  each other as parent, resolution of node 5 and of the whole map ends in the stack
  overflow the claim excludes, here with ten thousand frames.
\<close>

theorem cycle_counterexample:
  "getPath 10000 cyclic_map [] (JNum 5) = Inl StackOverflow
 \<and> getRoot 10000 cyclic_map [] (JNum 5) = Inl StackOverflow
 \<and> getRootId 10000 cyclic_map [] (JNum 5) = Inl StackOverflow
 \<and> computeCollectionPaths 10000 cyclic_map = Inl StackOverflow
 \<and> computeRootCollections 10000 cyclic_map = Inl StackOverflow
 \<and> computeRootCollectionIds 10000 cyclic_map = Inl StackOverflow"
  by (simp only: getPath_resolve getRoot_resolve getRootId_resolve
        computeCollectionPaths_def computeCollectionPaths_loop_resolve
        computeRootCollections_def computeRootCollections_loop_resolve
        computeRootCollectionIds_def computeRootCollectionIds_loop_resolve
        resolve_cycle[OF cyclic_map_cycle] resolve_loop_cycle[OF cyclic_map_cycle] simp_thms)

text \<open>
  C7. A node whose \<open>parentId\<close> is \<open>null\<close>, or names an id with no node in the map,
  resolves as a root: \<open>getPath\<close> and \<open>getRoot\<close> return its own title (one frame is
  enough) and cache it, and in the maps that \<open>computeCollectionPaths\<close> and
  \<open>computeRootCollections\<close> return, its path and its root title are its own title.
\<close>

theorem parentless_resolves_as_root:
  assumes "map_of collectionMap i = Some nd"
    and "parentId nd = JNull \<or> map_of collectionMap (parentId nd) = None"
  shows "getPath (Suc n) collectionMap [] i = Inr (title nd, [(i, title nd)])
       \<and> getRoot (Suc n) collectionMap [] i = Inr (title nd, [(i, title nd)])
       \<and> (\<forall>paths. computeCollectionPaths m collectionMap = Inr paths \<longrightarrow> map_of paths i = Some (title nd))
       \<and> (\<forall>roots. computeRootCollections m collectionMap = Inr roots \<longrightarrow> map_of roots i = Some (title nd))"
proof -
  from assms have root: "parentOf collectionMap i = None" by (auto simp: parentOf_def)
  have e: "map_of ([] :: string jsmap) i = None" by simp
  have 1: "getPath (Suc n) collectionMap [] i = Inr (title nd, [(i, title nd)])"
    unfolding getPath_resolve
    by (simp only: resolve_root[OF root assms(1) e] AList.update.simps)
  have 2: "getRoot (Suc n) collectionMap [] i = Inr (title nd, [(i, title nd)])"
    unfolding getRoot_resolve
    by (simp only: resolve_root[OF root assms(1) e] AList.update.simps)
  have 3: "map_of paths i = Some (title nd)" if "computeCollectionPaths m collectionMap = Inr paths" for paths
    by (rule resolve_loop_root_value[OF that[unfolded computeCollectionPaths_def computeCollectionPaths_loop_resolve] assms(1) root])
  have 4: "map_of roots i = Some (title nd)" if "computeRootCollections m collectionMap = Inr roots" for roots
    by (rule resolve_loop_root_value[OF that[unfolded computeRootCollections_def computeRootCollections_loop_resolve] assms(1) root])
  from 1 2 3 4 show ?thesis by blast
qed

theorem parentless_resolves_as_root_witness:
  "map_of example_map (JNum 9) = Some \<lparr>node_id = JNum 9, title = ''Orphan'', parentId = JNum 77\<rparr>
 \<and> map_of example_map (JNum 77) = None
 \<and> getPath (Suc 0) example_map [] (JNum 9) = Inr (''Orphan'', [(JNum 9, ''Orphan'')])
 \<and> getRoot (Suc 0) example_map [] (JNum 9) = Inr (''Orphan'', [(JNum 9, ''Orphan'')])
 \<and> computeCollectionPaths 5 example_map
     = Inr [(JNum 1, ''A''), (JNum 2, ''A / B''), (JNum 3, ''A / B / C''), (JNum 9, ''Orphan'')]
 \<and> map_of [(JNum 1, ''A''), (JNum 2, ''A / B''), (JNum 3, ''A / B / C''), (JNum 9, ''Orphan'')] (JNum 9)
     = Some ''Orphan''
 \<and> computeRootCollections 5 example_map
     = Inr [(JNum 1, ''A''), (JNum 2, ''A''), (JNum 3, ''A''), (JNum 9, ''Orphan'')]
 \<and> map_of [(JNum 1, ''A''), (JNum 2, ''A''), (JNum 3, ''A''), (JNum 9, ''Orphan'')] (JNum 9)
     = Some ''Orphan''"
proof -
  have a: "map_of example_map (JNum 9) = Some \<lparr>node_id = JNum 9, title = ''Orphan'', parentId = JNum 77\<rparr>"
    by (simp add: example_map_eq)
  have b: "map_of example_map (JNum 77) = None" by (simp add: example_map_eq)
  from parentless_resolves_as_root[OF a, where n=0 and m=5] a b example_paths example_roots_resolved
  show ?thesis by simp
qed

section \<open>The collection map and the full paths\<close>

lemma addCollection_other:
  "k \<noteq> jsor (col_uid c) (col_id c) \<Longrightarrow> map_of (addCollection c dflt m) k = map_of m k"
  by (simp add: addCollection_def Let_def update_conv')

lemma foldl_addCollection_other:
  assumes "k \<notin> (\<lambda>c. jsor (col_uid c) (col_id c)) ` set cs"
  shows "map_of (foldl (\<lambda>m c. addCollection c JNull m) m0 cs) k = map_of m0 k"
  using assms
proof (induction cs arbitrary: m0)
  case Nil
  show ?case by simp
next
  case (Cons c cs)
  then show ?case by (simp add: addCollection_other)
qed

lemma addCollection_node:
  "map_of (addCollection c JNull m) (jsor (col_uid c) (col_id c)) =
     Some \<lparr> node_id = jsor (col_uid c) (col_id c), title = col_title c,
            parentId =
              (if truthy (col_parent c) then
                 (case find truthy [getProp (col_parent c) ''$id'', getProp (col_parent c) ''_id'',
                                    getProp (col_parent c) ''id'', col_parent c] of
                    Some q \<Rightarrow> if typeof_object q then JNull else q
                  | None \<Rightarrow> JNull)
               else JNull) \<rparr>"
  by (simp add: addCollection_def Let_def update_conv' jsor_def)

text \<open>
  C4, as the code has it. \<open>addCollection\<close> treats a root as it treats a child: the
  \<open>null\<close> passed for a root is only the default. The node written for a root \<open>c\<close>
  carries the id and the title of \<open>c\<close>; its \<open>parentId\<close> is \<open>null\<close> when \<open>c\<close> supplies no
  parent reference (absent, \<open>null\<close> or otherwise falsy); when \<open>c\<close> supplies one, it is
  the first truthy value among \<open>parent.$id\<close>, \<open>parent._id\<close>, \<open>parent.id\<close> and the
  reference itself, or \<open>null\<close> when that value is an object. This holds for the step
  on any map, for the map as it stands after the turn of \<open>c\<close> in the list of roots,
  and for the map \<open>buildCollectionMap\<close> returns unless a later root or a child has the
  id of \<open>c\<close> and overwrites the node.
\<close>

theorem root_keeps_parent_reference:
  fixes c :: raw_collection
  defines "nd \<equiv>
     \<lparr> node_id = jsor (col_uid c) (col_id c), title = col_title c,
       parentId =
         (if truthy (col_parent c) then
            (case find truthy [getProp (col_parent c) ''$id'', getProp (col_parent c) ''_id'',
                               getProp (col_parent c) ''id'', col_parent c] of
               Some q \<Rightarrow> if typeof_object q then JNull else q
             | None \<Rightarrow> JNull)
          else JNull) \<rparr>"
  shows "map_of (addCollection c JNull m) (jsor (col_uid c) (col_id c)) = Some nd
       \<and> map_of (buildCollectionMap (before @ [c]) []) (jsor (col_uid c) (col_id c)) = Some nd
       \<and> (jsor (col_uid c) (col_id c)
             \<notin> (\<lambda>d. jsor (col_uid d) (col_id d)) ` set (after @ childCollections) \<longrightarrow>
           map_of (buildCollectionMap (before @ c # after) childCollections) (jsor (col_uid c) (col_id c))
             = Some nd)"
proof (intro conjI impI)
  show 1: "map_of (addCollection c JNull m) (jsor (col_uid c) (col_id c)) = Some nd" for m
    unfolding nd_def by (rule addCollection_node)
  have "buildCollectionMap (before @ [c]) []
          = addCollection c JNull (foldl (\<lambda>m c. addCollection c JNull m) [] before)"
    by (simp add: buildCollectionMap_def)
  with 1 show "map_of (buildCollectionMap (before @ [c]) []) (jsor (col_uid c) (col_id c)) = Some nd"
    by simp
next
  assume later: "jsor (col_uid c) (col_id c)
             \<notin> (\<lambda>d. jsor (col_uid d) (col_id d)) ` set (after @ childCollections)"
  have "buildCollectionMap (before @ c # after) childCollections
          = foldl (\<lambda>m c. addCollection c JNull m)
              (addCollection c JNull (foldl (\<lambda>m c. addCollection c JNull m) [] before))
              (after @ childCollections)"
    by (simp add: buildCollectionMap_def)
  then have "map_of (buildCollectionMap (before @ c # after) childCollections) (jsor (col_uid c) (col_id c))
          = map_of (addCollection c JNull (foldl (\<lambda>m c. addCollection c JNull m) [] before))
              (jsor (col_uid c) (col_id c))"
    using foldl_addCollection_other[OF later] by simp
  also have "\<dots> = Some nd" unfolding nd_def by (rule addCollection_node)
  finally show "map_of (buildCollectionMap (before @ c # after) childCollections) (jsor (col_uid c) (col_id c))
             = Some nd" .
qed

theorem root_keeps_parent_reference_witness:
  "map_of (buildCollectionMap [root_with_parent] example_children) (JNum 4)
     = Some \<lparr> node_id = JNum 4, title = ''R'', parentId = JNum 7 \<rparr>
 \<and> map_of (buildCollectionMap example_roots example_children) (JNum 1)
     = Some \<lparr> node_id = JNum 1, title = ''A'', parentId = JNull \<rparr>
 \<and> map_of (buildCollectionMap wrapped_roots example_children) (JNum 11)
     = Some \<lparr> node_id = JNum 11, title = ''P'', parentId = JNum 3 \<rparr>
 \<and> map_of (buildCollectionMap wrapped_roots example_children) (JNum 12)
     = Some \<lparr> node_id = JNum 12, title = ''Q'', parentId = JNum 8 \<rparr>
 \<and> map_of (buildCollectionMap wrapped_roots example_children) (JNum 13)
     = Some \<lparr> node_id = JNum 13, title = ''S'', parentId = JNull \<rparr>
 \<and> map_of (buildCollectionMap example_children []) (JNum 2)
     = Some \<lparr> node_id = JNum 2, title = ''B'', parentId = JNum 1 \<rparr>"
proof -
  let ?p = "\<lparr> col_uid = JNum 11, col_id = JUndefined, col_title = ''P'',
        col_parent = JObj [(''_id'', JNum 3)] \<rparr>"
  let ?q = "\<lparr> col_uid = JUndefined, col_id = JNum 12, col_title = ''Q'',
        col_parent = JObj [(''id'', JNum 8)] \<rparr>"
  let ?s = "\<lparr> col_uid = JNum 13, col_id = JUndefined, col_title = ''S'',
        col_parent = JObj [(''$ref'', JStr ''collections'')] \<rparr>"
  let ?a = "\<lparr> col_uid = JNum 1, col_id = JUndefined, col_title = ''A'', col_parent = JUndefined \<rparr>"
  let ?b = "\<lparr> col_uid = JNum 2, col_id = JUndefined, col_title = ''B'',
        col_parent = JObj [(''$ref'', JStr ''collections''), (''$id'', JNum 1)] \<rparr>"
  let ?c = "\<lparr> col_uid = JNum 3, col_id = JUndefined, col_title = ''C'', col_parent = JNum 2 \<rparr>"
  let ?o = "\<lparr> col_uid = JNum 9, col_id = JUndefined, col_title = ''Orphan'', col_parent = JNum 77 \<rparr>"
  have 1: "map_of (buildCollectionMap [root_with_parent] example_children) (JNum 4)
     = Some \<lparr> node_id = JNum 4, title = ''R'', parentId = JNum 7 \<rparr>"
    using root_keeps_parent_reference[of root_with_parent _ "[]" "[]" example_children]
    by (simp add: root_with_parent_def example_children_def jsor_def)
  have 2: "map_of (buildCollectionMap example_roots example_children) (JNum 1)
     = Some \<lparr> node_id = JNum 1, title = ''A'', parentId = JNull \<rparr>"
    using root_keeps_parent_reference[of ?a _ "[]" "[]" example_children]
    by (simp add: example_roots_def example_children_def jsor_def)
  have 3: "map_of (buildCollectionMap wrapped_roots example_children) (JNum 11)
     = Some \<lparr> node_id = JNum 11, title = ''P'', parentId = JNum 3 \<rparr>"
    using root_keeps_parent_reference[of ?p _ "[]" "[?q, ?s]" example_children]
    by (simp add: wrapped_roots_def example_children_def jsor_def)
  have 4: "map_of (buildCollectionMap wrapped_roots example_children) (JNum 12)
     = Some \<lparr> node_id = JNum 12, title = ''Q'', parentId = JNum 8 \<rparr>"
    using root_keeps_parent_reference[of ?q _ "[?p]" "[?s]" example_children]
    by (simp add: wrapped_roots_def example_children_def jsor_def)
  have 5: "map_of (buildCollectionMap wrapped_roots example_children) (JNum 13)
     = Some \<lparr> node_id = JNum 13, title = ''S'', parentId = JNull \<rparr>"
    using root_keeps_parent_reference[of ?s _ "[?p, ?q]" "[]" example_children]
    by (simp add: wrapped_roots_def example_children_def jsor_def)
  have 6: "map_of (buildCollectionMap example_children []) (JNum 2)
     = Some \<lparr> node_id = JNum 2, title = ''B'', parentId = JNum 1 \<rparr>"
    using root_keeps_parent_reference[of ?b _ "[]" "[?c, ?o]" "[]"]
    by (simp add: example_children_def jsor_def)
  from 1 2 3 4 5 6 show ?thesis by blast
qed

text \<open>
  C4, as the specification has it, fails: a root delivered with the parent reference
  7 is inserted with \<open>parentId = 7\<close>, not \<open>null\<close>.
\<close>

theorem root_parent_counterexample:
  "map_of (buildCollectionMap [root_with_parent] []) (JNum 4)
     = Some \<lparr> node_id = JNum 4, title = ''R'', parentId = JNum 7 \<rparr>"
  by (simp add: buildCollectionMap_def addCollection_def root_with_parent_def jsor_def Let_def)

lemma computeFullPaths_step_other:
  "k \<noteq> fst entry \<Longrightarrow> map_of (computeFullPaths_step rootIds groups acc entry) k = map_of acc k"
  by (cases entry) (simp add: computeFullPaths_step_def Let_def update_conv' split: option.splits)

lemma computeFullPaths_step_same:
  "map_of (computeFullPaths_step rootIds groups acc (i, path)) i =
     Some (case map_of rootIds i of
             None \<Rightarrow> path
           | Some rootId \<Rightarrow>
               if truthy rootId then
                 (case map_of groups rootId of
                    None \<Rightarrow> path
                  | Some g \<Rightarrow> if g = [] then path else g @ '' / '' @ path)
               else path)"
  by (simp add: computeFullPaths_step_def Let_def update_conv' split: option.splits)

lemma foldl_computeFullPaths_other:
  assumes "k \<notin> fst ` set paths"
  shows "map_of (foldl (computeFullPaths_step rootIds groups) acc paths) k = map_of acc k"
  using assms
proof (induction paths arbitrary: acc)
  case Nil
  show ?case by simp
next
  case (Cons e paths)
  then show ?case by (simp add: computeFullPaths_step_other)
qed

lemma foldl_computeFullPaths_mem:
  assumes "(i, path) \<in> set paths" and "distinct (map fst paths)"
  shows "map_of (foldl (computeFullPaths_step rootIds groups) acc paths) i
           = map_of (computeFullPaths_step rootIds groups [] (i, path)) i"
  using assms
proof (induction paths arbitrary: acc)
  case Nil
  then show ?case by simp
next
  case (Cons e paths)
  show ?case
  proof (cases "e = (i, path)")
    case True
    with Cons.prems(2) have "i \<notin> fst ` set paths" by auto
    from foldl_computeFullPaths_other[OF this, of rootIds groups "computeFullPaths_step rootIds groups acc (i, path)"]
      True show ?thesis
      by (simp add: computeFullPaths_step_same)
  next
    case False
    with Cons.prems have "(i, path) \<in> set paths" "distinct (map fst paths)" by simp_all
    from Cons.IH[OF this] show ?thesis by simp
  qed
qed

text \<open>
  C8, as the code has it. For every entry \<open>(i, path)\<close> of \<open>paths\<close> (a \<open>Map\<close>: its keys
  are distinct), the full path of \<open>i\<close> is \<open>group + " / " + path\<close> when the root id of
  \<open>i\<close> is truthy and the group index has a non-empty title for it, and is \<open>path\<close>
  otherwise: when there is no entry, when the title is empty, and also when the root
  id is missing or falsy (0, the empty string), whatever the group index holds.
\<close>

theorem fullPath_prefixed_by_group_of_truthy_root:
  assumes "(i, path) \<in> set paths" and "distinct (map fst paths)"
  shows "map_of (computeFullPaths paths rootIds groups) i =
     Some (case map_of rootIds i of
             None \<Rightarrow> path
           | Some rootId \<Rightarrow>
               if truthy rootId then
                 (case map_of groups rootId of
                    None \<Rightarrow> path
                  | Some g \<Rightarrow> if g = [] then path else g @ '' / '' @ path)
               else path)"
  unfolding computeFullPaths_def
  by (simp only: foldl_computeFullPaths_mem[OF assms] computeFullPaths_step_same)

lemma example_groups_eq: "buildGroupMap example_groups = [(JNum 1, ''G'')]"
  by (simp add: buildGroupMap_def example_groups_def)

theorem fullPath_prefixed_by_group_of_truthy_root_witness:
  "(JNum 3, ''A / B / C'') \<in> set [(JNum 1, ''A''), (JNum 2, ''A / B''), (JNum 3, ''A / B / C''), (JNum 9, ''Orphan'')]
 \<and> map_of (computeFullPaths [(JNum 1, ''A''), (JNum 2, ''A / B''), (JNum 3, ''A / B / C''), (JNum 9, ''Orphan'')]
              [(JNum 1, JNum 1), (JNum 2, JNum 1), (JNum 3, JNum 1), (JNum 9, JNum 9)]
              (buildGroupMap example_groups)) (JNum 3) = Some ''G / A / B / C''
 \<and> map_of (computeFullPaths [(JNum 1, ''A''), (JNum 2, ''A / B''), (JNum 3, ''A / B / C''), (JNum 9, ''Orphan'')]
              [(JNum 1, JNum 1), (JNum 2, JNum 1), (JNum 3, JNum 1), (JNum 9, JNum 9)]
              (buildGroupMap example_groups)) (JNum 9) = Some ''Orphan''"
proof -
  let ?paths = "[(JNum 1, ''A''), (JNum 2, ''A / B''), (JNum 3, ''A / B / C''), (JNum 9, ''Orphan'')]"
  have d: "distinct (map fst ?paths)" by simp
  have m3: "(JNum 3, ''A / B / C'') \<in> set ?paths" by simp
  have m9: "(JNum 9, ''Orphan'') \<in> set ?paths" by simp
  from fullPath_prefixed_by_group_of_truthy_root[OF m3 d] fullPath_prefixed_by_group_of_truthy_root[OF m9 d]
  show ?thesis by (simp add: example_groups_eq)
qed

text \<open>
  C8, as the specification has it, fails: the collection with id 0 is its own root,
  the group index maps 0 to \<open>G\<close>, and still its full path is its bare path \<open>Zero\<close>,
  because \<open>rootId ? groups.get(rootId) : ''\<close> takes the root id 0 for absent.
\<close>

theorem fullPath_counterexample:
  "computeCollectionPaths 5 (buildCollectionMap zero_roots []) = Inr [(JNum 0, ''Zero'')]
 \<and> computeRootCollectionIds 5 (buildCollectionMap zero_roots []) = Inr [(JNum 0, JNum 0)]
 \<and> map_of (buildGroupMap zero_groups) (JNum 0) = Some ''G''
 \<and> map_of (computeFullPaths [(JNum 0, ''Zero'')] [(JNum 0, JNum 0)] (buildGroupMap zero_groups)) (JNum 0)
      = Some ''Zero''"
  by (simp add: computeCollectionPaths_def computeRootCollectionIds_def buildCollectionMap_def
        addCollection_def zero_roots_def zero_groups_def buildGroupMap_def jsor_def Let_def
        computeFullPaths_def computeFullPaths_step_def eval_nat_numeral)

section \<open>Aggregation and deduplication\<close>

lemma dedup_append:
  "fetchAllRaindrops_dedup (a @ b) st = fetchAllRaindrops_dedup b (fetchAllRaindrops_dedup a st)"
proof (induction a arbitrary: st)
  case Nil
  show ?case by (cases st) simp
next
  case (Cons r a)
  obtain out seen where st: "st = (out, seen)" by (cases st)
  show ?case unfolding st by (simp add: Cons.IH)
qed

lemma dedup_filter_id:
  assumes "truthy x"
  shows "filter (\<lambda>r. raindropId r = x) (fst (fetchAllRaindrops_dedup rows (out, seen)))
           = filter (\<lambda>r. raindropId r = x) out
             @ (if x \<in> seen then [] else take 1 (filter (\<lambda>r. raindropId r = x) rows))"
proof (induction rows arbitrary: out seen)
  case Nil
  show ?case by simp
next
  case (Cons r rows)
  show ?case using assms by (auto simp: Cons.IH)
qed

lemma dedup_filter_falsy:
  "filter (\<lambda>r. \<not> truthy (raindropId r)) (fst (fetchAllRaindrops_dedup rows (out, seen)))
     = filter (\<lambda>r. \<not> truthy (raindropId r)) out @ filter (\<lambda>r. \<not> truthy (raindropId r)) rows"
  by (induction rows arbitrary: out seen) auto

lemma step_records:
  "(\<lambda>(a, b, c). (a, b))
     (fetchAllRaindrops_step cfg parseCsv net collectionMap fullPaths roots groups (out, seen, con) i)
   = fetchAllRaindrops_dedup (contributed cfg parseCsv net collectionMap fullPaths roots groups i) (out, seen)"
  by (auto simp: fetchAllRaindrops_step_def contributed_def split: option.splits sum.splits prod.splits)

lemma loop_records:
  "(\<lambda>(a, b, c). (a, b))
     (fetchAllRaindrops_loop cfg parseCsv net collectionMap fullPaths roots groups ids st)
   = fetchAllRaindrops_dedup
       (concat (map (contributed cfg parseCsv net collectionMap fullPaths roots groups) ids))
       ((\<lambda>(a, b, c). (a, b)) st)"
proof (induction ids arbitrary: st)
  case Nil
  show ?case by (cases st) (simp add: fetchAllRaindrops_loop_def)
next
  case (Cons i ids)
  obtain out seen con where st: "st = (out, seen, con)" by (cases st)
  have "fetchAllRaindrops_loop cfg parseCsv net collectionMap fullPaths roots groups (i # ids) st
          = fetchAllRaindrops_loop cfg parseCsv net collectionMap fullPaths roots groups ids
              (fetchAllRaindrops_step cfg parseCsv net collectionMap fullPaths roots groups st i)"
    by (simp add: fetchAllRaindrops_loop_def)
  then show ?case
    using step_records[of cfg parseCsv net collectionMap fullPaths roots groups out seen con i]
    by (simp add: Cons.IH st dedup_append)
qed

lemma fetchAllRaindrops_records:
  "fst (fetchAllRaindrops cfg parseCsv net collectionMap fullPaths roots groups)
     = fst (fetchAllRaindrops_dedup
              (concat (map (contributed cfg parseCsv net collectionMap fullPaths roots groups)
                           (map fst collectionMap)))
              ([], {}))"
proof -
  obtain out seen con where l:
    "fetchAllRaindrops_loop cfg parseCsv net collectionMap fullPaths roots groups
       (map fst collectionMap) ([], {}, []) = (out, seen, con)"
    by (cases "fetchAllRaindrops_loop cfg parseCsv net collectionMap fullPaths roots groups
       (map fst collectionMap) ([], {}, [])") auto
  from loop_records[of cfg parseCsv net collectionMap fullPaths roots groups "map fst collectionMap" "([], {}, [])"]
  have "fetchAllRaindrops_dedup
              (concat (map (contributed cfg parseCsv net collectionMap fullPaths roots groups)
                           (map fst collectionMap)))
              ([], {}) = (out, seen)"
    unfolding l by simp
  then show ?thesis by (simp add: fetchAllRaindrops_def l)
qed


lemma field_addMetadata:
  "field (addMetadata i t fp rc g r) ''collection_id'' = i
 \<and> field (addMetadata i t fp rc g r) ''collection_title'' = JStr t
 \<and> field (addMetadata i t fp rc g r) ''full_path'' = fp
 \<and> field (addMetadata i t fp rc g r) ''root_collection'' = rc
 \<and> field (addMetadata i t fp rc g r) ''group'' = JStr g"
  by (simp add: field_def addMetadata_def update_conv')

lemma raindropId_addMetadata: "raindropId (addMetadata i t fp rc g r) = raindropId r"
  by (simp add: raindropId_def field_def addMetadata_def update_conv')

lemma fetchOne_rows:
  assumes "fst (fetchOne cfg parseCsv net fullPaths roots groups k nd) = Inr rows" and "r \<in> set rows"
  shows "\<exists>r0. r = addMetadata k (title nd)
                (case map_of fullPaths k of Some p \<Rightarrow> JStr p | None \<Rightarrow> JUndefined)
                (case map_of roots k of Some t \<Rightarrow> JStr t | None \<Rightarrow> JUndefined)
                (case map_of groups k of Some g \<Rightarrow> g | None \<Rightarrow> []) r0"
  using assms
  by (auto simp: fetchOne_def fetchCollectionRaindrops_def Let_def
        split: option.splits sum.splits if_splits)

lemma contributed_metadata:
  assumes "r \<in> set (contributed cfg parseCsv net collectionMap fullPaths roots groups k)"
  shows "\<exists>nd. map_of collectionMap k = Some nd
           \<and> field r ''collection_id'' = k
           \<and> field r ''collection_title'' = JStr (title nd)
           \<and> field r ''full_path'' = (case map_of fullPaths k of Some p \<Rightarrow> JStr p | None \<Rightarrow> JUndefined)
           \<and> field r ''root_collection'' = (case map_of roots k of Some t \<Rightarrow> JStr t | None \<Rightarrow> JUndefined)
           \<and> field r ''group'' = JStr (case map_of groups k of Some g \<Rightarrow> g | None \<Rightarrow> [])"
proof (cases "map_of collectionMap k")
  case None
  with assms show ?thesis by (simp add: contributed_def)
next
  case (Some nd)
  show ?thesis
  proof (cases "fst (fetchOne cfg parseCsv net fullPaths roots groups k nd)")
    case (Inl e)
    with assms Some show ?thesis by (simp add: contributed_def)
  next
    case (Inr rows)
    with assms Some have "r \<in> set rows" by (simp add: contributed_def)
    from fetchOne_rows[OF Inr this] obtain r0 where
      "r = addMetadata k (title nd)
                (case map_of fullPaths k of Some p \<Rightarrow> JStr p | None \<Rightarrow> JUndefined)
                (case map_of roots k of Some t \<Rightarrow> JStr t | None \<Rightarrow> JUndefined)
                (case map_of groups k of Some g \<Rightarrow> g | None \<Rightarrow> []) r0" by blast
    with Some field_addMetadata show ?thesis by simp
  qed
qed

lemma example_fetches:
  "fst (getRaw config (example_net (JNum 1))) = Inr ''one''"
  "fst (getRaw config (example_net (JNum 2))) = Inr ''two''"
  "fst (getRaw config (example_net (JNum 3))) = Inl (Some (httpError 404))"
  "fst (getRaw config (example_net (JNum 9))) = Inl (Some (httpError 500))"
  by (simp_all add: getRaw_def getRaw_loop.simps config_def example_net_def httpError_def)

lemma example_not_blank: "\<not> trim_is_empty ''one''" "\<not> trim_is_empty ''two''"
  by (simp_all add: trim_is_empty_def all_white_space.simps white_space_length_def)

lemma example_contributed_eq:
  "example_contributed (JNum 1) =
     [[(''id'', JStr ''10''), (''title'', JStr ''T''), (''collection_id'', JNum 1),
       (''collection_title'', JStr ''A''), (''full_path'', JStr ''G / A''),
       (''root_collection'', JStr ''A''), (''group'', JStr ''G'')],
      [(''title'', JStr ''N''), (''collection_id'', JNum 1), (''collection_title'', JStr ''A''),
       (''full_path'', JStr ''G / A''), (''root_collection'', JStr ''A''), (''group'', JStr ''G'')]]"
  "example_contributed (JNum 2) =
     [[(''id'', JStr ''10''), (''title'', JStr ''T''), (''collection_id'', JNum 2),
       (''collection_title'', JStr ''B''), (''full_path'', JStr ''G / A / B''),
       (''root_collection'', JStr ''A''), (''group'', JStr [])],
      [(''title'', JStr ''N''), (''collection_id'', JNum 2), (''collection_title'', JStr ''B''),
       (''full_path'', JStr ''G / A / B''), (''root_collection'', JStr ''A''), (''group'', JStr [])]]"
  "example_contributed (JNum 3) = []"
  "example_contributed (JNum 9) = []"
  by (simp_all add: example_contributed_def contributed_def fetchOne_def fetchCollectionRaindrops_def
        example_fetches example_not_blank example_groups_eq example_map_eq
        example_parseCsv_def example_fullPaths_def example_rootTitles_def addMetadata_def
        httpError_def Let_def)


text \<open>
  C6. Let \<open>x\<close> be a truthy identifier (\<open>raindrop.id || raindrop._id\<close>), let \<open>k\<close> be the
  first collection in processing order whose export holds a bookmark with identifier
  \<open>x\<close>, whatever later exports hold. Then the output of \<open>fetchAllRaindrops\<close> has
  exactly one record with identifier \<open>x\<close>: the first such record of the export of
  \<open>k\<close>, carrying the five metadata properties of \<open>k\<close>. Every later record with that
  identifier is dropped, and the run goes on (the function returns its list).
\<close>

theorem first_collection_wins:
  assumes "truthy x"
    and "map fst collectionMap = before @ k # after"
    and "\<forall>j\<in>set before. \<forall>r\<in>set (contributed cfg parseCsv net collectionMap fullPaths roots groups j).
           raindropId r \<noteq> x"
    and "r \<in> set (contributed cfg parseCsv net collectionMap fullPaths roots groups k)"
    and "raindropId r = x"
  shows "\<exists>r1 nd.
           filter (\<lambda>r. raindropId r = x) (fst (fetchAllRaindrops cfg parseCsv net collectionMap fullPaths roots groups))
             = [r1]
         \<and> r1 = hd (filter (\<lambda>r. raindropId r = x) (contributed cfg parseCsv net collectionMap fullPaths roots groups k))
         \<and> map_of collectionMap k = Some nd
         \<and> field r1 ''collection_id'' = k
         \<and> field r1 ''collection_title'' = JStr (title nd)
         \<and> field r1 ''full_path'' = (case map_of fullPaths k of Some p \<Rightarrow> JStr p | None \<Rightarrow> JUndefined)
         \<and> field r1 ''root_collection'' = (case map_of roots k of Some t \<Rightarrow> JStr t | None \<Rightarrow> JUndefined)
         \<and> field r1 ''group'' = JStr (case map_of groups k of Some g \<Rightarrow> g | None \<Rightarrow> [])"
proof -
  let ?c = "contributed cfg parseCsv net collectionMap fullPaths roots groups"
  let ?P = "\<lambda>r. raindropId r = x"
  have b: "filter ?P (concat (map ?c before)) = []"
    using assms(3) by (auto simp: filter_empty_conv)
  from assms(4,5) have ne: "filter ?P (?c k) \<noteq> []" by (auto simp: filter_empty_conv)
  then obtain r1 rest where r1: "filter ?P (?c k) = r1 # rest" by (cases "filter ?P (?c k)") auto
  have "filter ?P (fst (fetchAllRaindrops cfg parseCsv net collectionMap fullPaths roots groups))
          = take 1 (filter ?P (concat (map ?c (before @ k # after))))"
    using dedup_filter_id[OF assms(1), of "concat (map ?c (before @ k # after))" "[]" "{}"]
    by (simp add: fetchAllRaindrops_records assms(2))
  also have "\<dots> = [r1]" using b r1 by simp
  finally have 1: "filter ?P (fst (fetchAllRaindrops cfg parseCsv net collectionMap fullPaths roots groups)) = [r1]" .
  have 2: "r1 = hd (filter ?P (?c k))" using r1 by simp
  have "r1 \<in> set (filter ?P (?c k))" using r1 by simp
  then have "r1 \<in> set (?c k)" by simp
  from contributed_metadata[OF this] 1 2 show ?thesis by blast
qed

theorem first_collection_wins_witness:
  "truthy (JStr ''10'')
 \<and> map fst example_map = [] @ JNum 1 # [JNum 2, JNum 3, JNum 9]
 \<and> raindropId (hd (example_contributed (JNum 1))) = JStr ''10''
 \<and> raindropId (hd (example_contributed (JNum 2))) = JStr ''10''
 \<and> filter (\<lambda>r. raindropId r = JStr ''10'') (fst example_output) = [hd (example_contributed (JNum 1))]
 \<and> field (hd (example_contributed (JNum 1))) ''collection_id'' = JNum 1
 \<and> field (hd (example_contributed (JNum 1))) ''collection_title'' = JStr ''A''
 \<and> field (hd (example_contributed (JNum 1))) ''full_path'' = JStr ''G / A''"
proof -
  let ?r = "hd (example_contributed (JNum 1))"
  have t: "truthy (JStr ''10'')" by simp
  have k: "map fst example_map = [] @ JNum 1 # [JNum 2, JNum 3, JNum 9]" by (simp add: example_map_eq)
  have b: "\<forall>j\<in>set []. \<forall>r\<in>set (contributed config example_parseCsv example_net example_map
              example_fullPaths example_rootTitles (buildGroupMap example_groups) j).
              raindropId r \<noteq> JStr ''10''" by simp
  have m: "?r \<in> set (contributed config example_parseCsv example_net example_map
              example_fullPaths example_rootTitles (buildGroupMap example_groups) (JNum 1))"
    unfolding example_contributed_def[symmetric] by (simp add: example_contributed_eq)
  have i1: "raindropId ?r = JStr ''10''"
    by (simp add: example_contributed_eq raindropId_def field_def jsor_def)
  have i2: "raindropId (hd (example_contributed (JNum 2))) = JStr ''10''"
    by (simp add: example_contributed_eq raindropId_def field_def jsor_def)
  have h: "hd (filter (\<lambda>r. raindropId r = JStr ''10'') (example_contributed (JNum 1))) = ?r"
    by (simp add: example_contributed_eq raindropId_def field_def jsor_def)
  from first_collection_wins[OF t k b m i1]
  have "filter (\<lambda>r. raindropId r = JStr ''10'') (fst example_output) = [?r]"
    unfolding example_contributed_def[symmetric] example_output_def[symmetric] h by blast
  moreover have "field ?r ''collection_id'' = JNum 1" "field ?r ''collection_title'' = JStr ''A''"
      "field ?r ''full_path'' = JStr ''G / A''"
    by (simp_all add: example_contributed_eq field_def)
  ultimately show ?thesis using t k i1 i2 by blast
qed

text \<open>
  C10. The records whose identifier is falsy (no \<open>id\<close> and no \<open>_id\<close>, or empty ones)
  are never dropped: the output holds every such record of every export that was
  fetched, in processing order, as often as it was delivered.
\<close>

theorem records_without_id_all_kept:
  "filter (\<lambda>r. \<not> truthy (raindropId r))
      (fst (fetchAllRaindrops cfg parseCsv net collectionMap fullPaths roots groups))
   = filter (\<lambda>r. \<not> truthy (raindropId r))
      (concat (map (contributed cfg parseCsv net collectionMap fullPaths roots groups) (map fst collectionMap)))"
  using dedup_filter_falsy[of "concat (map (contributed cfg parseCsv net collectionMap fullPaths roots groups) (map fst collectionMap))" "[]" "{}"]
  by (simp add: fetchAllRaindrops_records)

theorem records_without_id_all_kept_witness:
  "filter (\<lambda>r. \<not> truthy (raindropId r)) (fst example_output)
     = [[(''title'', JStr ''N''), (''collection_id'', JNum 1), (''collection_title'', JStr ''A''),
         (''full_path'', JStr ''G / A''), (''root_collection'', JStr ''A''), (''group'', JStr ''G'')],
        [(''title'', JStr ''N''), (''collection_id'', JNum 2), (''collection_title'', JStr ''B''),
         (''full_path'', JStr ''G / A / B''), (''root_collection'', JStr ''A''), (''group'', JStr [])]]"
  using records_without_id_all_kept[of config example_parseCsv example_net example_map
          example_fullPaths example_rootTitles "buildGroupMap example_groups"]
  unfolding example_contributed_def[symmetric] example_output_def[symmetric]
  by (simp add: example_map_eq example_contributed_eq raindropId_def field_def jsor_def)

lemma dedup_subset:
  "set (fst (fetchAllRaindrops_dedup rows (out, seen))) \<subseteq> set out \<union> set rows"
proof (induction rows arbitrary: out seen)
  case Nil
  show ?case by simp
next
  case (Cons a rows)
  show ?case
  proof (cases "truthy (raindropId a) \<and> raindropId a \<in> seen")
    case True
    with Cons.IH[of out seen] show ?thesis by auto
  next
    case False
    with Cons.IH[of "out @ [a]" "if truthy (raindropId a) then insert (raindropId a) seen else seen"]
    show ?thesis by auto
  qed
qed

lemma dedup_covers:
  assumes "r \<in> set rows"
  shows "r \<in> set (fst (fetchAllRaindrops_dedup rows ([], {})))
       \<or> (truthy (raindropId r)
          \<and> (\<exists>r'\<in>set (fst (fetchAllRaindrops_dedup rows ([], {}))). raindropId r' = raindropId r))"
proof (cases "truthy (raindropId r)")
  case True
  let ?P = "\<lambda>q. raindropId q = raindropId r"
  from assms have "filter ?P rows \<noteq> []" by (auto simp: filter_empty_conv)
  then have "take 1 (filter ?P rows) \<noteq> []" by (cases "filter ?P rows") auto
  with dedup_filter_id[OF True, of rows "[]" "{}"]
  have "filter ?P (fst (fetchAllRaindrops_dedup rows ([], {}))) \<noteq> []" by simp
  then obtain r' where "r' \<in> set (fst (fetchAllRaindrops_dedup rows ([], {})))" "raindropId r' = raindropId r"
    by (auto simp: filter_empty_conv)
  with True show ?thesis by blast
next
  case False
  with assms have "r \<in> set (filter (\<lambda>q. \<not> truthy (raindropId q)) rows)" by simp
  with dedup_filter_falsy[of rows "[]" "{}"]
  have "r \<in> set (filter (\<lambda>q. \<not> truthy (raindropId q)) (fst (fetchAllRaindrops_dedup rows ([], {}))))"
    by simp
  then show ?thesis by simp
qed

lemma step_console:
  "\<exists>extra. snd (snd (fetchAllRaindrops_step cfg parseCsv net collectionMap fullPaths roots groups st i))
             = snd (snd st) @ extra"
  by (cases st) (auto simp: fetchAllRaindrops_step_def split: option.splits sum.splits prod.splits)

lemma loop_console:
  "\<exists>extra. snd (snd (fetchAllRaindrops_loop cfg parseCsv net collectionMap fullPaths roots groups ids st))
             = snd (snd st) @ extra"
proof (induction ids arbitrary: st)
  case Nil
  show ?case by (simp add: fetchAllRaindrops_loop_def)
next
  case (Cons i ids)
  let ?st1 = "fetchAllRaindrops_step cfg parseCsv net collectionMap fullPaths roots groups st i"
  from step_console[of cfg parseCsv net collectionMap fullPaths roots groups st i]
  obtain x where x: "snd (snd ?st1) = snd (snd st) @ x" by blast
  from Cons[of ?st1] obtain y where
    "snd (snd (fetchAllRaindrops_loop cfg parseCsv net collectionMap fullPaths roots groups ids ?st1))
       = snd (snd ?st1) @ y" by blast
  with x show ?case by (simp add: fetchAllRaindrops_loop_def)
qed

lemma loop_console_mem:
  assumes "\<And>out seen con.
             fetchAllRaindrops_step cfg parseCsv net collectionMap fullPaths roots groups (out, seen, con) k
               = (out, seen, con @ [line])"
  shows "line \<in> set (snd (snd (fetchAllRaindrops_loop cfg parseCsv net collectionMap fullPaths roots groups
                                (before @ k # after) st)))"
proof -
  let ?l = "fetchAllRaindrops_loop cfg parseCsv net collectionMap fullPaths roots groups"
  obtain out seen con where b: "?l before st = (out, seen, con)" by (cases "?l before st") auto
  have "?l (before @ k # after) st = ?l after (out, seen, con @ [line])"
    using b assms by (simp add: fetchAllRaindrops_loop_def)
  moreover from loop_console[of cfg parseCsv net collectionMap fullPaths roots groups after "(out, seen, con @ [line])"]
  obtain y where "snd (snd (?l after (out, seen, con @ [line]))) = (con @ [line]) @ y" by auto
  ultimately show ?thesis by simp
qed

lemma late_fetches:
  "fst (getRaw config (late_net (JNum 1))) = Inl (Some (httpError 500))"
  "fst (getRaw config (late_net (JNum 2))) = Inr ''two''"
  "fst (getRaw config (late_net (JNum 3))) = Inl (Some (httpError 404))"
  "fst (getRaw config (late_net (JNum 9))) = Inr ''one''"
  by (simp_all add: getRaw_def getRaw_loop.simps config_def late_net_def httpError_def)

lemma late_contributed_eq:
  "late_contributed (JNum 1) = []"
  "late_contributed (JNum 2) =
     [[(''id'', JStr ''10''), (''title'', JStr ''T''), (''collection_id'', JNum 2),
       (''collection_title'', JStr ''B''), (''full_path'', JStr ''G / A / B''),
       (''root_collection'', JStr ''A''), (''group'', JStr [])],
      [(''title'', JStr ''N''), (''collection_id'', JNum 2), (''collection_title'', JStr ''B''),
       (''full_path'', JStr ''G / A / B''), (''root_collection'', JStr ''A''), (''group'', JStr [])]]"
  "late_contributed (JNum 3) = []"
  "late_contributed (JNum 9) =
     [[(''id'', JStr ''10''), (''title'', JStr ''T''), (''collection_id'', JNum 9),
       (''collection_title'', JStr ''Orphan''), (''full_path'', JStr ''Orphan''),
       (''root_collection'', JStr ''Orphan''), (''group'', JStr [])],
      [(''title'', JStr ''N''), (''collection_id'', JNum 9), (''collection_title'', JStr ''Orphan''),
       (''full_path'', JStr ''Orphan''), (''root_collection'', JStr ''Orphan''), (''group'', JStr [])]]"
  by (simp_all add: late_contributed_def contributed_def fetchOne_def fetchCollectionRaindrops_def
        late_fetches example_not_blank example_groups_eq example_map_eq
        example_parseCsv_def example_fullPaths_def example_rootTitles_def addMetadata_def
        httpError_def Let_def)

text \<open>
  C9. When the fetch of the export of collection \<open>k\<close> ends in an error \<open>e\<close>: if the
  status of \<open>e\<close> is 404, \<open>fetchCollectionRaindrops\<close> returns no records and prints a
  warning; otherwise it rethrows \<open>e\<close> and the loop prints the message of \<open>e\<close>. In both
  cases the round leaves the records and the seen identifiers as they were, and the
  loop goes on: from any state, the records after the collections \<open>before @ k # after\<close>
  are those after \<open>before @ after\<close>. For the run of \<open>fetchAllRaindrops\<close> on a map
  whose keys are \<open>before @ k # after\<close>: the records returned are the deduplication of
  what the other collections contribute, those before \<open>k\<close> and those after it; every
  record returned is one of theirs; every record of theirs is returned or has the
  truthy identifier of a record that is; and the console of the run holds the line
  printed for \<open>k\<close>.
\<close>

theorem failed_collection_is_skipped:
  assumes "map_of collectionMap k = Some nd"
    and "fst (getRaw cfg (net k)) = Inl (Some e)"
  shows "(status e = Some 404 \<longrightarrow>
            fetchOne cfg parseCsv net fullPaths roots groups k nd = (Inr [], [WarnNotFound k])
          \<and> fetchAllRaindrops_step cfg parseCsv net collectionMap fullPaths roots groups (out, seen, con) k
              = (out, seen, con @ [WarnNotFound k]))
       \<and> (status e \<noteq> Some 404 \<longrightarrow>
            fetchOne cfg parseCsv net fullPaths roots groups k nd = (Inl e, [])
          \<and> fetchAllRaindrops_step cfg parseCsv net collectionMap fullPaths roots groups (out, seen, con) k
              = (out, seen, con @ [ErrorFetching k (message e)]))
       \<and> fst (fetchAllRaindrops_loop cfg parseCsv net collectionMap fullPaths roots groups (before @ k # after) st)
           = fst (fetchAllRaindrops_loop cfg parseCsv net collectionMap fullPaths roots groups (before @ after) st)
       \<and> (map fst collectionMap = before @ k # after \<longrightarrow>
            fst (fetchAllRaindrops cfg parseCsv net collectionMap fullPaths roots groups)
              = fst (fetchAllRaindrops_loop cfg parseCsv net collectionMap fullPaths roots groups
                       (before @ after) ([], {}, []))
          \<and> fst (fetchAllRaindrops cfg parseCsv net collectionMap fullPaths roots groups)
              = fst (fetchAllRaindrops_dedup
                       (concat (map (contributed cfg parseCsv net collectionMap fullPaths roots groups)
                                    (before @ after)))
                       ([], {}))
          \<and> set (fst (fetchAllRaindrops cfg parseCsv net collectionMap fullPaths roots groups))
              \<subseteq> set (concat (map (contributed cfg parseCsv net collectionMap fullPaths roots groups)
                                  (before @ after)))
          \<and> (\<forall>r\<in>set (concat (map (contributed cfg parseCsv net collectionMap fullPaths roots groups)
                                  (before @ after))).
                r \<in> set (fst (fetchAllRaindrops cfg parseCsv net collectionMap fullPaths roots groups))
              \<or> (truthy (raindropId r)
                 \<and> (\<exists>r'\<in>set (fst (fetchAllRaindrops cfg parseCsv net collectionMap fullPaths roots groups)).
                       raindropId r' = raindropId r)))
          \<and> (if status e = Some 404 then WarnNotFound k else ErrorFetching k (message e))
              \<in> set (snd (fetchAllRaindrops cfg parseCsv net collectionMap fullPaths roots groups)))"
proof -
  let ?c = "contributed cfg parseCsv net collectionMap fullPaths roots groups"
  let ?l = "fetchAllRaindrops_loop cfg parseCsv net collectionMap fullPaths roots groups"
  let ?run = "fetchAllRaindrops cfg parseCsv net collectionMap fullPaths roots groups"
  let ?line = "if status e = Some 404 then WarnNotFound k else ErrorFetching k (message e)"
  have f: "fetchOne cfg parseCsv net fullPaths roots groups k nd
             = (if status e = Some 404 then (Inr [], [WarnNotFound k]) else (Inl e, []))"
    using assms(2) by (simp add: fetchOne_def fetchCollectionRaindrops_def Let_def)
  have s: "fetchAllRaindrops_step cfg parseCsv net collectionMap fullPaths roots groups (out, seen, con) k
             = (out, seen, con @ [?line])" for out seen con
    using assms(1) by (simp add: fetchAllRaindrops_step_def f)
  have c: "?c k = []" using assms(1) by (simp add: contributed_def f)
  have "(\<lambda>(a, b, c). (a, b)) (?l (before @ k # after) st) = (\<lambda>(a, b, c). (a, b)) (?l (before @ after) st)"
    by (simp add: loop_records c)
  then have l: "fst (?l (before @ k # after) st) = fst (?l (before @ after) st)"
    by (auto split: prod.splits)
  have "(\<lambda>(a, b, c). (a, b)) (?l (before @ k # after) ([], {}, []))
      = (\<lambda>(a, b, c). (a, b)) (?l (before @ after) ([], {}, []))"
    by (simp add: loop_records c)
  then have l0: "fst (?l (before @ k # after) ([], {}, [])) = fst (?l (before @ after) ([], {}, []))"
    by (auto split: prod.splits)
  have t: "fst ?run = fst (?l (map fst collectionMap) ([], {}, []))"
    by (simp add: fetchAllRaindrops_def split: prod.splits)
  have t2: "snd ?run = snd (snd (?l (map fst collectionMap) ([], {}, [])))"
    by (simp add: fetchAllRaindrops_def split: prod.splits)
  have run: "fst ?run = fst (?l (before @ after) ([], {}, []))
          \<and> fst ?run = fst (fetchAllRaindrops_dedup (concat (map ?c (before @ after))) ([], {}))
          \<and> set (fst ?run) \<subseteq> set (concat (map ?c (before @ after)))
          \<and> (\<forall>r\<in>set (concat (map ?c (before @ after))).
                r \<in> set (fst ?run)
              \<or> (truthy (raindropId r) \<and> (\<exists>r'\<in>set (fst ?run). raindropId r' = raindropId r)))
          \<and> ?line \<in> set (snd ?run)"
    if keys: "map fst collectionMap = before @ k # after"
  proof -
    have 1: "fst ?run = fst (?l (before @ after) ([], {}, []))" using t l0 keys by simp
    have "concat (map ?c (map fst collectionMap)) = concat (map ?c (before @ after))"
      using keys c by simp
    then have 2: "fst ?run = fst (fetchAllRaindrops_dedup (concat (map ?c (before @ after))) ([], {}))"
      by (simp add: fetchAllRaindrops_records)
    have 3: "set (fst ?run) \<subseteq> set (concat (map ?c (before @ after)))"
      unfolding 2 using dedup_subset[of "concat (map ?c (before @ after))" "[]" "{}"] by simp
    have 4: "\<forall>r\<in>set (concat (map ?c (before @ after))).
                r \<in> set (fst ?run)
              \<or> (truthy (raindropId r) \<and> (\<exists>r'\<in>set (fst ?run). raindropId r' = raindropId r))"
      unfolding 2 using dedup_covers by blast
    have 5: "?line \<in> set (snd ?run)"
      unfolding t2 keys by (rule loop_console_mem[OF s])
    from 1 2 3 4 5 show ?thesis by blast
  qed
  have A: "status e = Some 404 \<longrightarrow>
            fetchOne cfg parseCsv net fullPaths roots groups k nd = (Inr [], [WarnNotFound k])
          \<and> fetchAllRaindrops_step cfg parseCsv net collectionMap fullPaths roots groups (out, seen, con) k
              = (out, seen, con @ [WarnNotFound k])"
    using f s[of out seen con] by simp
  have B: "status e \<noteq> Some 404 \<longrightarrow>
            fetchOne cfg parseCsv net fullPaths roots groups k nd = (Inl e, [])
          \<and> fetchAllRaindrops_step cfg parseCsv net collectionMap fullPaths roots groups (out, seen, con) k
              = (out, seen, con @ [ErrorFetching k (message e)])"
    using f s[of out seen con] by simp
  from run have R: "map fst collectionMap = before @ k # after \<longrightarrow>
            fst ?run = fst (?l (before @ after) ([], {}, []))
          \<and> fst ?run = fst (fetchAllRaindrops_dedup (concat (map ?c (before @ after))) ([], {}))
          \<and> set (fst ?run) \<subseteq> set (concat (map ?c (before @ after)))
          \<and> (\<forall>r\<in>set (concat (map ?c (before @ after))).
                r \<in> set (fst ?run)
              \<or> (truthy (raindropId r) \<and> (\<exists>r'\<in>set (fst ?run). raindropId r' = raindropId r)))
          \<and> ?line \<in> set (snd ?run)"
    by (rule impI)
  show ?thesis by (intro conjI) (rule A, rule B, rule l, rule R)
qed

theorem failed_collection_is_skipped_witness:
  "fst (getRaw config (late_net (JNum 1))) = Inl (Some (httpError 500))
 \<and> fst (getRaw config (late_net (JNum 3))) = Inl (Some (httpError 404))
 \<and> map fst example_map = [] @ JNum 1 # [JNum 2, JNum 3, JNum 9]
 \<and> map fst example_map = [JNum 1, JNum 2] @ JNum 3 # [JNum 9]
 \<and> fetchAllRaindrops_step config example_parseCsv late_net example_map example_fullPaths
       example_rootTitles (buildGroupMap example_groups) ([], {}, []) (JNum 1)
     = ([], {}, [ErrorFetching (JNum 1) ''Request failed''])
 \<and> fetchAllRaindrops_step config example_parseCsv late_net example_map example_fullPaths
       example_rootTitles (buildGroupMap example_groups) ([], {}, []) (JNum 3)
     = ([], {}, [WarnNotFound (JNum 3)])
 \<and> fst late_output =
     [[(''id'', JStr ''10''), (''title'', JStr ''T''), (''collection_id'', JNum 2),
       (''collection_title'', JStr ''B''), (''full_path'', JStr ''G / A / B''),
       (''root_collection'', JStr ''A''), (''group'', JStr [])],
      [(''title'', JStr ''N''), (''collection_id'', JNum 2), (''collection_title'', JStr ''B''),
       (''full_path'', JStr ''G / A / B''), (''root_collection'', JStr ''A''), (''group'', JStr [])],
      [(''title'', JStr ''N''), (''collection_id'', JNum 9), (''collection_title'', JStr ''Orphan''),
       (''full_path'', JStr ''Orphan''), (''root_collection'', JStr ''Orphan''), (''group'', JStr [])]]
 \<and> ErrorFetching (JNum 1) ''Request failed'' \<in> set (snd late_output)
 \<and> WarnNotFound (JNum 3) \<in> set (snd late_output)"
proof -
  have n1: "map_of example_map (JNum 1) = Some \<lparr>node_id = JNum 1, title = ''A'', parentId = JNull\<rparr>"
    by (simp add: example_map_eq)
  have n3: "map_of example_map (JNum 3) = Some \<lparr>node_id = JNum 3, title = ''C'', parentId = JNum 2\<rparr>"
    by (simp add: example_map_eq)
  note f1 = late_fetches(1)
  note f3 = late_fetches(3)
  have k1: "map fst example_map = [] @ JNum 1 # [JNum 2, JNum 3, JNum 9]" by (simp add: example_map_eq)
  have k3: "map fst example_map = [JNum 1, JNum 2] @ JNum 3 # [JNum 9]" by (simp add: example_map_eq)
  have s1: "status (httpError 500) \<noteq> Some 404" "message (httpError 500) = ''Request failed''"
    by (simp_all add: httpError_def)
  have s3: "status (httpError 404) = Some 404" by (simp add: httpError_def)
  note t1 = failed_collection_is_skipped[where cfg=config and net=late_net and k="JNum 1"
         and parseCsv=example_parseCsv and fullPaths=example_fullPaths and roots=example_rootTitles
         and groups="buildGroupMap example_groups" and out="[]" and seen="{}" and con="[]"
         and before="[]" and after="[JNum 2, JNum 3, JNum 9]" and st="([], {}, [])", OF n1 f1,
         folded late_contributed_def late_output_def]
  note t3 = failed_collection_is_skipped[where cfg=config and net=late_net and k="JNum 3"
         and parseCsv=example_parseCsv and fullPaths=example_fullPaths and roots=example_rootTitles
         and groups="buildGroupMap example_groups" and out="[]" and seen="{}" and con="[]"
         and before="[JNum 1, JNum 2]" and after="[JNum 9]" and st="([], {}, [])", OF n3 f3,
         folded late_contributed_def late_output_def]
  from t1 s1 have a: "fetchAllRaindrops_step config example_parseCsv late_net example_map example_fullPaths
       example_rootTitles (buildGroupMap example_groups) ([], {}, []) (JNum 1)
     = ([], {}, [ErrorFetching (JNum 1) ''Request failed''])"
    by simp
  from t3 s3 have b: "fetchAllRaindrops_step config example_parseCsv late_net example_map example_fullPaths
       example_rootTitles (buildGroupMap example_groups) ([], {}, []) (JNum 3)
     = ([], {}, [WarnNotFound (JNum 3)])"
    by simp
  from t1 k1 have "fst late_output
      = fst (fetchAllRaindrops_dedup (concat (map late_contributed ([] @ [JNum 2, JNum 3, JNum 9]))) ([], {}))"
    by blast
  then have c: "fst late_output =
     [[(''id'', JStr ''10''), (''title'', JStr ''T''), (''collection_id'', JNum 2),
       (''collection_title'', JStr ''B''), (''full_path'', JStr ''G / A / B''),
       (''root_collection'', JStr ''A''), (''group'', JStr [])],
      [(''title'', JStr ''N''), (''collection_id'', JNum 2), (''collection_title'', JStr ''B''),
       (''full_path'', JStr ''G / A / B''), (''root_collection'', JStr ''A''), (''group'', JStr [])],
      [(''title'', JStr ''N''), (''collection_id'', JNum 9), (''collection_title'', JStr ''Orphan''),
       (''full_path'', JStr ''Orphan''), (''root_collection'', JStr ''Orphan''), (''group'', JStr [])]]"
    by (simp add: late_contributed_eq raindropId_def field_def jsor_def)
  from t1 k1 s1 have d: "ErrorFetching (JNum 1) ''Request failed'' \<in> set (snd late_output)"
    by simp
  from t3 k3 s3 have e: "WarnNotFound (JNum 3) \<in> set (snd late_output)"
    by simp
  from f1 f3 k1 k3 a b c d e show ?thesis by blast
qed

end
